theory Spec2Isabelle
  imports Main "HOL-Library.Word" "HOL-Library.Multiset"
begin

section \<open>Values of the host language\<close>

text \<open>
  A JavaScript string is a sequence of UTF-16 code units; the glyphs of the board lie
  outside ASCII, each is one code unit, and its \<open>length\<close> is 1. Strings that hold ASCII
  only and are only compared (key names, coordinate keys) are written as HOL strings.
\<close>

type_synonym jsstring = "16 word list"

definition ascii :: "string \<Rightarrow> jsstring" where
  "ascii s = map of_char s"

text \<open>
  The numbers of the program are integers (coordinates, identifiers, board sizes), and
  \<open>Math.min()\<close> and \<open>Math.max()\<close> of no argument are the two infinities.
\<close>

datatype jsnum = NegInfinity | Number int | PosInfinity

fun Math_min :: "int list \<Rightarrow> jsnum" where
  "Math_min [] = PosInfinity"
| "Math_min (x # xs) =
     (case Math_min xs of
        PosInfinity \<Rightarrow> Number x
      | Number m \<Rightarrow> Number (min x m)
      | NegInfinity \<Rightarrow> NegInfinity)"

fun Math_max :: "int list \<Rightarrow> jsnum" where
  "Math_max [] = NegInfinity"
| "Math_max (x # xs) =
     (case Math_max xs of
        NegInfinity \<Rightarrow> Number x
      | Number m \<Rightarrow> Number (max x m)
      | PosInfinity \<Rightarrow> PosInfinity)"

fun jsnum_add :: "jsnum \<Rightarrow> int \<Rightarrow> jsnum" where
  "jsnum_add (Number a) b = Number (a + b)"
| "jsnum_add NegInfinity b = NegInfinity"
| "jsnum_add PosInfinity b = PosInfinity"

fun jsnum_ge :: "jsnum \<Rightarrow> int \<Rightarrow> bool" where
  "jsnum_ge (Number a) b = (a \<ge> b)"
| "jsnum_ge NegInfinity b = False"
| "jsnum_ge PosInfinity b = True"

fun jsnum_le :: "jsnum \<Rightarrow> int \<Rightarrow> bool" where
  "jsnum_le (Number a) b = (a \<le> b)"
| "jsnum_le NegInfinity b = True"
| "jsnum_le PosInfinity b = False"

text \<open>
  Number-to-string conversion of an integer, as a template literal does it: decimal
  digits, most significant first, with a leading minus sign for a negative number.
\<close>

definition digitChar :: "nat \<Rightarrow> char" where
  "digitChar d = char_of (48 + d)"

fun digits :: "nat \<Rightarrow> string" where
  "digits n = (if n < 10 then [digitChar n] else digits (n div 10) @ [digitChar (n mod 10)])"

declare digits.simps [simp del]

definition numberToString :: "int \<Rightarrow> string" where
  "numberToString i = (if i < 0 then CHR ''-'' # digits (nat (- i)) else digits (nat i))"

section \<open>Entities\<close>

text \<open>The glyphs of \<open>enum BoardCharacter\<close> and of the border, as code units.\<close>

definition BaseBoardBackground :: jsstring where
  "BaseBoardBackground = ascii '' ''"

definition FullBoardBackground :: jsstring where
  "FullBoardBackground = ascii ''y''"

definition PlayerGlyph :: jsstring where
  "PlayerGlyph = [0x25B2]"

definition EnemyGlyph :: jsstring where
  "EnemyGlyph = [0x25A0]"

definition BulletGlyph :: jsstring where
  "BulletGlyph = ascii ''.''"

definition VerticalEdge :: jsstring where
  "VerticalEdge = [0x2502]"

definition HorizontalEdge :: jsstring where
  "HorizontalEdge = [0x2500]"

definition TopLeftCorner :: jsstring where
  "TopLeftCorner = [0x250C]"

definition TopRightCorner :: jsstring where
  "TopRightCorner = [0x2510]"

definition BottomLeftCorner :: jsstring where
  "BottomLeftCorner = [0x2514]"

definition BottomRightCorner :: jsstring where
  "BottomRightCorner = [0x2518]"

datatype Direction = Left | Right

definition getCoordinate :: "int \<Rightarrow> int \<Rightarrow> string" where
  "getCoordinate x y = ''('' @ numberToString x @ '','' @ numberToString y @ '')''"

fun flipDirection :: "Direction \<Rightarrow> Direction" where
  "flipDirection Left = Right"
| "flipDirection Right = Left"

record Enemy =
  e_x :: int
  e_y :: int
  e_character :: jsstring
  e_id :: int

record Bullet =
  b_x :: int
  b_y :: int
  b_character :: jsstring
  b_id :: int

record Player =
  p_x :: int
  p_y :: int

text \<open>
  \<open>createId\<close> increments the module's counter and returns it; the constructors take
  the counter and return it with the new entity.
\<close>

definition createId :: "int \<Rightarrow> int \<times> int" where
  "createId c = (c + 1, c + 1)"

definition new_Enemy :: "int \<Rightarrow> int \<Rightarrow> int \<Rightarrow> Enemy \<times> int" where
  "new_Enemy x y c =
     (let (i, c') = createId c
      in (\<lparr>e_x = x, e_y = y, e_character = EnemyGlyph, e_id = i\<rparr>, c'))"

definition new_Bullet :: "int \<Rightarrow> int \<Rightarrow> int \<Rightarrow> Bullet \<times> int" where
  "new_Bullet x y c =
     (let (i, c') = createId c
      in (\<lparr>b_x = x, b_y = y, b_character = BulletGlyph, b_id = i\<rparr>, c'))"

section \<open>The game object\<close>

record SpaceInvaders =
  player :: Player
  width :: int
  height :: int
  isGameRunning :: bool
  enemies :: "Enemy list"
  enemyDirection :: Direction
  bullets :: "Bullet list"

definition createEnemies :: "int \<Rightarrow> Enemy list \<times> int" where
  "createEnemies c0 =
     (let NUM_ENEMIES_PER_ROW = 8; NUM_ROWS = 3;
          ENEMY_X_SPACING = 3; ENEMY_Y_SPACING = 2;
          ENEMY_X_START = 3; ENEMY_Y_START = 1
      in fold (\<lambda>row acc.
                 fold (\<lambda>col (es, c).
                         let (e, c') = new_Enemy (ENEMY_X_START + col * ENEMY_X_SPACING)
                                                 (ENEMY_Y_START + row * ENEMY_Y_SPACING) c
                         in (es @ [e], c'))
                      [0 .. NUM_ENEMIES_PER_ROW - 1] acc)
              [0 .. NUM_ROWS - 1] ([], c0))"

definition new_SpaceInvaders :: "int \<Rightarrow> SpaceInvaders \<times> int" where
  "new_SpaceInvaders c0 =
     (let w = 40; h = 20;
          (es, c1) = createEnemies c0
      in (\<lparr>player = \<lparr>p_x = w div 2, p_y = h - 1\<rparr>,
           width = w, height = h, isGameRunning = True,
           enemies = es, enemyDirection = Right, bullets = []\<rparr>, c1))"

subsection \<open>Movement and collision\<close>

definition moveBullets :: "SpaceInvaders \<Rightarrow> SpaceInvaders" where
  "moveBullets g =
     (let moved = map (\<lambda>bullet. bullet\<lparr>b_y := b_y bullet - 1\<rparr>) (bullets g);
          bulletCoordinates = set (map (\<lambda>b. getCoordinate (b_x b) (b_y b)) moved)
      in g\<lparr>enemies := filter (\<lambda>e. getCoordinate (e_x e) (e_y e) \<notin> bulletCoordinates) (enemies g),
           bullets := filter (\<lambda>b. b_y b \<ge> 0) moved\<rparr>)"

definition directionVector :: "SpaceInvaders \<Rightarrow> int" where
  "directionVector g = (if enemyDirection g = Right then 1 else - 1)"

definition moveEnemies :: "SpaceInvaders \<Rightarrow> SpaceInvaders" where
  "moveEnemies g =
     (let dv = directionVector g;
          leftmost = Math_min (map e_x (enemies g));
          rightmost = Math_max (map e_x (enemies g));
          g1 = (if jsnum_ge (jsnum_add rightmost dv) (width g - 1) \<or>
                   jsnum_le (jsnum_add leftmost dv) 0
                then g\<lparr>enemyDirection := flipDirection (enemyDirection g)\<rparr>
                else g)
      in g1\<lparr>enemies := map (\<lambda>enemy. enemy\<lparr>e_x := e_x enemy + 1 * dv\<rparr>) (enemies g1)\<rparr>)"

subsection \<open>Arrays and boards\<close>

text \<open>
  An array element is a string or \<open>undefined\<close> (a hole, or a read out of range).
  \<open>Array(n)\<close> throws a RangeError for a negative or too large length; a write
  \<open>row[x] = v\<close> past the end extends the array, leaving holes, and a write at a key that
  is not an array index (a negative one, or one from \<open>2^32 - 1\<close> on) sets a property and
  leaves the elements alone; \<open>board[y][x]\<close> throws a TypeError where \<open>board[y]\<close> is
  undefined.
\<close>

datatype cell = Undefined | Str jsstring

type_synonym board = "cell list list"

datatype error = TypeError | RangeError

definition bindE :: "error + 'a \<Rightarrow> ('a \<Rightarrow> error + 'b) \<Rightarrow> error + 'b" where
  "bindE m f = (case m of Inl e \<Rightarrow> Inl e | Inr x \<Rightarrow> f x)"

fun forEachE :: "('s \<Rightarrow> 'a \<Rightarrow> error + 's) \<Rightarrow> 'a list \<Rightarrow> 's \<Rightarrow> error + 's" where
  "forEachE f [] s = Inr s"
| "forEachE f (x # xs) s = (case f s x of Inl e \<Rightarrow> Inl e | Inr s' \<Rightarrow> forEachE f xs s')"

definition newArray :: "int \<Rightarrow> 'a \<Rightarrow> error + 'a list" where
  "newArray n v = (if n < 0 \<or> n > 4294967295 then Inl RangeError else Inr (replicate (nat n) v))"

definition newMatrix :: "int \<Rightarrow> int \<Rightarrow> cell \<Rightarrow> error + board" where
  "newMatrix h w v =
     bindE (newArray h (Str []))
       (\<lambda>rows. if rows = [] then Inr []
               else bindE (newArray w v) (\<lambda>row. Inr (map (\<lambda>_. row) rows)))"

definition arraySet :: "cell list \<Rightarrow> int \<Rightarrow> cell \<Rightarrow> cell list" where
  "arraySet row x v =
     (if x < 0 \<or> x \<ge> 4294967295 then row
      else if nat x < length row then row[nat x := v]
      else row @ replicate (nat x - length row) Undefined @ [v])"

definition setCell :: "board \<Rightarrow> int \<Rightarrow> int \<Rightarrow> cell \<Rightarrow> error + board" where
  "setCell b y x v =
     (if 0 \<le> y \<and> nat y < length b then Inr (b[nat y := arraySet (b ! nat y) x v])
      else Inl TypeError)"

definition getCell :: "board \<Rightarrow> int \<Rightarrow> int \<Rightarrow> error + cell" where
  "getCell b i j =
     (if 0 \<le> i \<and> nat i < length b
      then Inr (let row = b ! nat i in if 0 \<le> j \<and> nat j < length row then row ! nat j else Undefined)
      else Inl TypeError)"

definition joinCells :: "cell list \<Rightarrow> jsstring" where
  "joinCells row = concat (map (\<lambda>c. case c of Undefined \<Rightarrow> [] | Str s \<Rightarrow> s) row)"

fun joinLines :: "jsstring list \<Rightarrow> jsstring" where
  "joinLines [] = []"
| "joinLines [l] = l"
| "joinLines (l # ls) = l @ ascii [CHR 0x0A] @ joinLines ls"

subsection \<open>Rendering\<close>

definition createBaseBoard :: "SpaceInvaders \<Rightarrow> error + board" where
  "createBaseBoard g = newMatrix (height g) (width g) (Str BaseBoardBackground)"

definition renderEnemies :: "SpaceInvaders \<Rightarrow> board \<Rightarrow> error + board" where
  "renderEnemies g baseBoard =
     forEachE (\<lambda>b enemy. setCell b (e_y enemy) (e_x enemy) (Str (e_character enemy)))
       (enemies g) baseBoard"

definition renderBullets :: "SpaceInvaders \<Rightarrow> board \<Rightarrow> error + board" where
  "renderBullets g baseBoard =
     forEachE (\<lambda>b bullet. setCell b (b_y bullet) (b_x bullet) (Str (b_character bullet)))
       (bullets g) baseBoard"

definition createFullBoard :: "SpaceInvaders \<Rightarrow> board \<Rightarrow> error + board" where
  "createFullBoard g board =
     (let w = width g + 2; h = height g + 2
      in bindE (newMatrix h w (Str FullBoardBackground)) (\<lambda>fb0.
         bindE (forEachE (\<lambda>fb i. bindE (setCell fb i 0 (Str VerticalEdge))
                                   (\<lambda>fb'. setCell fb' i (w - 1) (Str VerticalEdge)))
                  [0 .. h - 1] fb0) (\<lambda>fb1.
         bindE (forEachE (\<lambda>fb i. bindE (setCell fb 0 i (Str HorizontalEdge))
                                   (\<lambda>fb'. setCell fb' (h - 1) i (Str HorizontalEdge)))
                  [0 .. w - 1] fb1) (\<lambda>fb2.
         bindE (setCell fb2 0 0 (Str TopLeftCorner)) (\<lambda>fb3.
         bindE (setCell fb3 0 (w - 1) (Str TopRightCorner)) (\<lambda>fb4.
         bindE (setCell fb4 (h - 1) 0 (Str BottomLeftCorner)) (\<lambda>fb5.
         bindE (setCell fb5 (h - 1) (w - 1) (Str BottomRightCorner)) (\<lambda>fb6.
         forEachE (\<lambda>fb i.
                     forEachE (\<lambda>fb j. bindE (getCell board i j) (setCell fb (i + 1) (j + 1)))
                       [0 .. width g - 1] fb)
           [0 .. height g - 1] fb6))))))))"

text \<open>
  The first half of \<open>render\<close>: the base board with the enemies, then the bullets, then
  the player drawn on it.
\<close>

definition drawBaseBoard :: "SpaceInvaders \<Rightarrow> error + board" where
  "drawBaseBoard g =
     bindE (createBaseBoard g) (\<lambda>b0.
     bindE (renderEnemies g b0) (\<lambda>b1.
     bindE (renderBullets g b1) (\<lambda>b2.
     setCell b2 (p_y (player g)) (p_x (player g)) (Str PlayerGlyph))))"

definition renderBoard :: "SpaceInvaders \<Rightarrow> error + board" where
  "renderBoard g = bindE (drawBaseBoard g) (createFullBoard g)"

section \<open>The process: console, counter, timer and handlers\<close>

datatype console_call = Clear | Log jsstring | Debug Player

datatype process_state = Alive | Exited int | Crashed error

record Key =
  k_name :: "string option"
  k_ctrl :: bool

record World =
  game :: SpaceInvaders
  count_var :: int
  process :: process_state
  gameLoop :: bool
  console :: "console_call list"

definition emit :: "console_call \<Rightarrow> World \<Rightarrow> World" where
  "emit out w = w\<lparr>console := console w @ [out]\<rparr>"

definition crash :: "error \<Rightarrow> World \<Rightarrow> World" where
  "crash e w = w\<lparr>process := Crashed e\<rparr>"

definition controlsCaption :: jsstring where
  "controlsCaption =
     ascii (CHR 0x0A # ''Controls: '') @ [0x2190] @ ascii ''/'' @ [0x2192] @ ascii '' to move, Q to quit''"

definition render :: "World \<Rightarrow> World" where
  "render w =
     (let g = game w; w1 = emit Clear w
      in case drawBaseBoard g of
           Inl e \<Rightarrow> crash e w1
         | Inr baseBoard \<Rightarrow>
             (let w2 = emit (Debug (player g)) w1
              in case createFullBoard g baseBoard of
                   Inl e \<Rightarrow> crash e w2
                 | Inr fullBoard \<Rightarrow>
                     emit (Log controlsCaption)
                       (emit (Log (joinLines (map joinCells fullBoard))) w2)))"

definition createBullet :: "World \<Rightarrow> World" where
  "createBullet w =
     (let g = game w;
          (bullet, c') = new_Bullet (p_x (player g)) (p_y (player g) - 1) (count_var w)
      in w\<lparr>game := g\<lparr>bullets := bullets g @ [bullet]\<rparr>, count_var := c'\<rparr>)"

definition gameOver :: "jsstring \<Rightarrow> World \<Rightarrow> World" where
  "gameOver message w =
     (let w1 = w\<lparr>game := (game w)\<lparr>isGameRunning := False\<rparr>\<rparr>;
          w2 = emit (Log message) (emit Clear w1)
      in w2\<lparr>process := Exited 0\<rparr>)"

definition isQuit :: "Key \<Rightarrow> bool" where
  "isQuit key = (k_name key = Some ''q'' \<or> (k_ctrl key \<and> k_name key = Some ''c''))"

text \<open>
  The keypress listener of \<open>setupInputHandling\<close>. \<open>process.exit\<close> in \<open>gameOver\<close> ends
  the process, so the render that closes the listener does not run on that branch.
\<close>

definition keypress :: "Key \<Rightarrow> World \<Rightarrow> World" where
  "keypress key w =
     (let g = game w
      in if k_name key = Some ''left'' \<and> p_x (player g) > 0
         then render (w\<lparr>game := g\<lparr>player := (player g)\<lparr>p_x := p_x (player g) - 1\<rparr>\<rparr>\<rparr>)
         else if k_name key = Some ''right'' \<and> p_x (player g) < width g - 1
         then render (w\<lparr>game := g\<lparr>player := (player g)\<lparr>p_x := p_x (player g) + 1\<rparr>\<rparr>\<rparr>)
         else if isQuit key
         then gameOver (ascii ''Thanks for playing!'') w
         else if k_name key = Some ''space''
         then render (createBullet w)
         else render w)"

text \<open>The callback that \<open>start\<close> hands to \<open>setInterval\<close>.\<close>

definition gameLoopTick :: "World \<Rightarrow> World" where
  "gameLoopTick w =
     (if \<not> isGameRunning (game w) then w\<lparr>gameLoop := False\<rparr>
      else render (w\<lparr>game := moveBullets (moveEnemies (game w))\<rparr>))"

text \<open>
  The module's top level: the counter starts at 0, the game object is constructed, a line
  is logged, and \<open>start\<close> registers the listener and the interval. (\<open>start\<close> also
  empties the debug log file, which nothing reads.)
\<close>

definition initWorld :: World where
  "initWorld =
     (let (g, c) = new_SpaceInvaders 0
      in emit (Log (ascii ''Starting game...''))
           \<lparr>game = g, count_var = c, process = Alive, gameLoop = True, console = []\<rparr>)"

text \<open>
  The host runs one handler at a time, to completion: a key event runs the listener, a
  timer event runs the interval's callback while the interval is set, and nothing runs
  once the process has ended.
\<close>

datatype event = Keypress Key | Timer

definition deliver :: "event \<Rightarrow> World \<Rightarrow> World" where
  "deliver ev w =
     (if process w \<noteq> Alive then w
      else case ev of
             Keypress key \<Rightarrow> keypress key w
           | Timer \<Rightarrow> if gameLoop w then gameLoopTick w else w)"

definition run :: "event list \<Rightarrow> World \<Rightarrow> World" where
  "run evs w = foldl (\<lambda>w ev. deliver ev w) w evs"

section \<open>Observations and sample states\<close>

text \<open>The x-offsets between all ordered pairs of enemies of a formation.\<close>

definition xOffsets :: "Enemy list \<Rightarrow> int list" where
  "xOffsets es = concat (map (\<lambda>a. map (\<lambda>b. e_x b - e_x a) es) es)"

text \<open>
  Sample entities, as their constructors build them with the identifier \<open>i\<close>, and the
  freshly constructed game object with other entities in it.
\<close>

definition mkEnemy :: "int \<Rightarrow> int \<Rightarrow> int \<Rightarrow> Enemy" where
  "mkEnemy x y i = fst (new_Enemy x y (i - 1))"

definition mkBullet :: "int \<Rightarrow> int \<Rightarrow> int \<Rightarrow> Bullet" where
  "mkBullet x y i = fst (new_Bullet x y (i - 1))"

definition sampleGame :: "Enemy list \<Rightarrow> Direction \<Rightarrow> Bullet list \<Rightarrow> SpaceInvaders" where
  "sampleGame es d bs =
     (fst (new_SpaceInvaders 0))\<lparr>enemies := es, enemyDirection := d, bullets := bs\<rparr>"

text \<open>Sample keys, and the initial world with the player moved to column \<open>x\<close>.\<close>

definition spaceKey :: Key where "spaceKey = \<lparr>k_name = Some ''space'', k_ctrl = False\<rparr>"

definition leftKey :: Key where "leftKey = \<lparr>k_name = Some ''left'', k_ctrl = False\<rparr>"

definition rightKey :: Key where "rightKey = \<lparr>k_name = Some ''right'', k_ctrl = False\<rparr>"

definition quitKey :: Key where "quitKey = \<lparr>k_name = Some ''q'', k_ctrl = False\<rparr>"

definition ctrlC :: Key where "ctrlC = \<lparr>k_name = Some ''c'', k_ctrl = True\<rparr>"

definition playerAt :: "int \<Rightarrow> World" where
  "playerAt x = initWorld\<lparr>game := (game initWorld)\<lparr>player := \<lparr>p_x = x, p_y = 19\<rparr>\<rparr>\<rparr>"

section \<open>Invariants\<close>

text \<open>
  \<open>onBoard\<close>: every entity has a position on the board. \<open>sessionInv\<close> is the invariant of a
  session that proves it: the board is 40 by 20, the player is on the bottom row, an enemy
  has not yet reached the edge it moves towards, and a bullet is above the player.
  \<open>worldInv\<close> adds the process: the interval is set, the process lives or has exited,
  and it lives exactly while the running flag is true.
\<close>

definition onBoard :: "SpaceInvaders \<Rightarrow> bool" where
  "onBoard g \<longleftrightarrow>
     0 \<le> p_x (player g) \<and> p_x (player g) < width g \<and>
     0 \<le> p_y (player g) \<and> p_y (player g) < height g \<and>
     (\<forall>e\<in>set (enemies g). 0 \<le> e_x e \<and> e_x e < width g \<and> 0 \<le> e_y e \<and> e_y e < height g) \<and>
     (\<forall>b\<in>set (bullets g). 0 \<le> b_x b \<and> b_x b < width g \<and> 0 \<le> b_y b \<and> b_y b < height g)"

definition sessionInv :: "SpaceInvaders \<Rightarrow> bool" where
  "sessionInv g \<longleftrightarrow>
     width g = 40 \<and> height g = 20 \<and>
     p_y (player g) = 19 \<and> 0 \<le> p_x (player g) \<and> p_x (player g) \<le> 39 \<and>
     (\<forall>e\<in>set (enemies g).
        0 \<le> e_y e \<and> e_y e < 20 \<and> e_character e = EnemyGlyph \<and>
        (if enemyDirection g = Right then 0 \<le> e_x e \<and> e_x e \<le> 38
         else 1 \<le> e_x e \<and> e_x e \<le> 39)) \<and>
     (\<forall>b\<in>set (bullets g).
        0 \<le> b_x b \<and> b_x b \<le> 39 \<and> 0 \<le> b_y b \<and> b_y b \<le> 18 \<and> b_character b = BulletGlyph)"

definition worldInv :: "World \<Rightarrow> bool" where
  "worldInv w \<longleftrightarrow>
     sessionInv (game w) \<and> gameLoop w \<and>
     (process w = Alive \<or> process w = Exited 0) \<and>
     (isGameRunning (game w) \<longleftrightarrow> process w = Alive)"

text \<open>
  The entities carry the glyphs of their constructors; the bordered board fits an array.
\<close>

definition defaultGlyphs :: "SpaceInvaders \<Rightarrow> bool" where
  "defaultGlyphs g \<longleftrightarrow>
     (\<forall>e\<in>set (enemies g). e_character e = EnemyGlyph) \<and>
     (\<forall>b\<in>set (bullets g). b_character b = BulletGlyph)"

definition fitsArrays :: "SpaceInvaders \<Rightarrow> bool" where
  "fitsArrays g \<longleftrightarrow> width g + 2 \<le> 4294967295 \<and> height g + 2 \<le> 4294967295"

text \<open>
  What an interior cell of the rendered board shows, in the words of the specification:
  the player over a bullet over an enemy over the background. The theorem on \<open>render\<close>
  compares the board the code builds with it.
\<close>

definition expectedCell :: "SpaceInvaders \<Rightarrow> int \<Rightarrow> int \<Rightarrow> cell" where
  "expectedCell g x y =
     (if p_x (player g) = x \<and> p_y (player g) = y then Str PlayerGlyph
      else if \<exists>b\<in>set (bullets g). b_x b = x \<and> b_y b = y then Str BulletGlyph
      else if \<exists>e\<in>set (enemies g). e_x e = x \<and> e_y e = y then Str EnemyGlyph
      else Str BaseBoardBackground)"

text \<open>How often the running flag goes from true to false along a sequence of events.\<close>

fun quitTransitions :: "event list \<Rightarrow> World \<Rightarrow> nat" where
  "quitTransitions [] w = 0"
| "quitTransitions (ev # evs) w =
     (if isGameRunning (game w) \<and> \<not> isGameRunning (game (deliver ev w)) then 1 else 0) +
     quitTransitions evs (deliver ev w)"

section \<open>Boards as sequences of cell writes\<close>

text \<open>
  For the proofs about rendering: a board of \<open>H\<close> rows of \<open>W\<close> cells, a write \<open>(y, x, v)\<close>
  inside it, the board after the write, and the writes each loop of the renderer makes.
\<close>

type_synonym cellWrite = "int \<times> int \<times> cell"

definition rect :: "nat \<Rightarrow> nat \<Rightarrow> board \<Rightarrow> bool" where
  "rect H W b \<longleftrightarrow> length b = H \<and> (\<forall>i<H. length (b ! i) = W)"

definition writeCell :: "board \<Rightarrow> cellWrite \<Rightarrow> error + board" where
  "writeCell b t = (case t of (y, x, v) \<Rightarrow> setCell b y x v)"

definition inside :: "nat \<Rightarrow> nat \<Rightarrow> cellWrite \<Rightarrow> bool" where
  "inside H W t = (case t of (y, x, v) \<Rightarrow> 0 \<le> y \<and> nat y < H \<and> 0 \<le> x \<and> nat x < W \<and> x < 4294967295)"

definition put :: "board \<Rightarrow> cellWrite \<Rightarrow> board" where
  "put b t = (case t of (y, x, v) \<Rightarrow> b[nat y := (b ! nat y)[nat x := v]])"

definition hits :: "nat \<Rightarrow> nat \<Rightarrow> cellWrite \<Rightarrow> bool" where
  "hits i j t = (case t of (y, x, v) \<Rightarrow> nat y = i \<and> nat x = j)"

definition baseWrites :: "SpaceInvaders \<Rightarrow> cellWrite list" where
  "baseWrites g =
     map (\<lambda>e. (e_y e, e_x e, Str (e_character e))) (enemies g) @
     map (\<lambda>b. (b_y b, b_x b, Str (b_character b))) (bullets g) @
     [(p_y (player g), p_x (player g), Str PlayerGlyph)]"

definition sideWrites :: "int \<Rightarrow> int \<Rightarrow> cellWrite list" where
  "sideWrites h w = concat (map (\<lambda>i. [(i, 0, Str VerticalEdge), (i, w - 1, Str VerticalEdge)]) [0 .. h - 1])"

definition edgeWrites :: "int \<Rightarrow> int \<Rightarrow> cellWrite list" where
  "edgeWrites h w = concat (map (\<lambda>i. [(0, i, Str HorizontalEdge), (h - 1, i, Str HorizontalEdge)]) [0 .. w - 1])"

definition cornerWrites :: "int \<Rightarrow> int \<Rightarrow> cellWrite list" where
  "cornerWrites h w =
     [(0, 0, Str TopLeftCorner), (0, w - 1, Str TopRightCorner),
      (h - 1, 0, Str BottomLeftCorner), (h - 1, w - 1, Str BottomRightCorner)]"

definition copyWrites :: "int \<Rightarrow> int \<Rightarrow> board \<Rightarrow> cellWrite list" where
  "copyWrites h w board =
     concat (map (\<lambda>i. map (\<lambda>j. (i + 1, j + 1, board ! nat i ! nat j)) [0 .. w - 1]) [0 .. h - 1])"

section \<open>Coordinate keys\<close>

lemma of_char_digitChar: "d < 10 \<Longrightarrow> of_char (digitChar d) = 48 + d"
  unfolding digitChar_def by simp

lemma digits_value: "foldl (\<lambda>a c. 10 * a + (of_char c - 48)) 0 (digits n) = n"
proof (induction n rule: digits.induct)
  case (1 n)
  show ?case
  proof (cases "n < 10")
    case True
    then show ?thesis by (simp add: digits.simps [of n] of_char_digitChar)
  next
    case False
    with 1 show ?thesis by (simp add: digits.simps [of n] of_char_digitChar)
  qed
qed

lemma digits_inj: "digits a = digits b \<Longrightarrow> a = b"
  by (metis digits_value)

lemma digits_chars: "c \<in> set (digits n) \<Longrightarrow> c \<in> digitChar ` {..<10}"
proof (induction n rule: digits.induct)
  case (1 n)
  show ?case
  proof (cases "n < 10")
    case True
    with 1(2) show ?thesis by (simp add: digits.simps [of n])
  next
    case False
    with 1 show ?thesis by (auto simp add: digits.simps [of n])
  qed
qed

lemma digitChar_not_sep: "d < 10 \<Longrightarrow> digitChar d \<noteq> CHR ''-'' \<and> digitChar d \<noteq> CHR '',''"
  using of_char_digitChar [of d] by auto

lemma digits_no_minus: "CHR ''-'' \<notin> set (digits n)"
  using digits_chars digitChar_not_sep by fastforce

lemma digits_no_comma: "CHR '','' \<notin> set (digits n)"
  using digits_chars digitChar_not_sep by fastforce

lemma numberToString_inj: "numberToString a = numberToString b \<Longrightarrow> a = b"
proof -
  assume eq: "numberToString a = numberToString b"
  have neg: "CHR ''-'' # digits m \<noteq> digits n" for m n
    using digits_no_minus [of n] by (metis list.set_intros(1))
  show ?thesis
  proof (cases "a < 0")
    case True
    note a = this
    show ?thesis
    proof (cases "b < 0")
      case True
      with a eq have "digits (nat (- a)) = digits (nat (- b))" by (simp add: numberToString_def)
      then have "nat (- a) = nat (- b)" by (rule digits_inj)
      with a True show ?thesis by simp
    next
      case False
      with a eq neg show ?thesis by (simp add: numberToString_def)
    qed
  next
    case False
    note a = this
    show ?thesis
    proof (cases "b < 0")
      case True
      with a eq neg [of "nat (- b)" "nat a"] show ?thesis by (simp add: numberToString_def)
    next
      case False
      with a eq have "digits (nat a) = digits (nat b)" by (simp add: numberToString_def)
      then have "nat a = nat b" by (rule digits_inj)
      with a False show ?thesis by simp
    qed
  qed
qed

lemma numberToString_no_comma: "CHR '','' \<notin> set (numberToString a)"
  unfolding numberToString_def using digits_no_comma by simp

lemma sep_split:
  "c \<notin> set xs \<Longrightarrow> c \<notin> set xs' \<Longrightarrow> xs @ c # ys = xs' @ c # ys' \<Longrightarrow> xs = xs' \<and> ys = ys'"
proof (induction xs arbitrary: xs')
  case Nil
  then show ?case by (cases xs') auto
next
  case (Cons a xs)
  then show ?case by (cases xs') auto
qed

text \<open>Two coordinate keys are the same string exactly when the positions are the same.\<close>

lemma getCoordinate_inj: "getCoordinate x y = getCoordinate x' y' \<longleftrightarrow> x = x' \<and> y = y'"
proof
  assume "getCoordinate x y = getCoordinate x' y'"
  then have "numberToString x @ CHR '','' # (numberToString y @ '')'')
      = numberToString x' @ CHR '','' # (numberToString y' @ '')'')"
    by (simp add: getCoordinate_def)
  then have "numberToString x = numberToString x' \<and> numberToString y @ '')'' = numberToString y' @ '')''"
    by (rule sep_split [OF numberToString_no_comma numberToString_no_comma])
  then show "x = x' \<and> y = y'"
    by (simp add: numberToString_inj)
next
  assume "x = x' \<and> y = y'"
  then show "getCoordinate x y = getCoordinate x' y'" by simp
qed

section \<open>Minimum and maximum of a formation\<close>

lemma Math_min_Min: "xs \<noteq> [] \<Longrightarrow> Math_min xs = Number (Min (set xs))"
proof (induction xs)
  case Nil
  then show ?case by simp
next
  case (Cons x xs)
  show ?case
  proof (cases "xs = []")
    case True
    then show ?thesis by simp
  next
    case False
    with Cons.IH show ?thesis by simp
  qed
qed

lemma Math_max_Max: "xs \<noteq> [] \<Longrightarrow> Math_max xs = Number (Max (set xs))"
proof (induction xs)
  case Nil
  then show ?case by simp
next
  case (Cons x xs)
  show ?case
  proof (cases "xs = []")
    case True
    then show ?thesis by simp
  next
    case False
    with Cons.IH show ?thesis by simp
  qed
qed

section \<open>Sample states in closed form\<close>

lemma sampleGame_eq:
  "sampleGame es d bs =
     \<lparr>player = \<lparr>p_x = 20, p_y = 19\<rparr>, width = 40, height = 20, isGameRunning = True,
      enemies = es, enemyDirection = d, bullets = bs\<rparr>"
  by (simp add: sampleGame_def new_SpaceInvaders_def Let_def split_def)

lemma mkEnemy_eq: "mkEnemy x y i = \<lparr>e_x = x, e_y = y, e_character = EnemyGlyph, e_id = i\<rparr>"
  by (simp add: mkEnemy_def new_Enemy_def createId_def)

lemma mkBullet_eq: "mkBullet x y i = \<lparr>b_x = x, b_y = y, b_character = BulletGlyph, b_id = i\<rparr>"
  by (simp add: mkBullet_def new_Bullet_def createId_def)

lemma createEnemies_0:
  "createEnemies 0 =
     ([mkEnemy 3 1 1, mkEnemy 6 1 2, mkEnemy 9 1 3, mkEnemy 12 1 4,
       mkEnemy 15 1 5, mkEnemy 18 1 6, mkEnemy 21 1 7, mkEnemy 24 1 8,
       mkEnemy 3 3 9, mkEnemy 6 3 10, mkEnemy 9 3 11, mkEnemy 12 3 12,
       mkEnemy 15 3 13, mkEnemy 18 3 14, mkEnemy 21 3 15, mkEnemy 24 3 16,
       mkEnemy 3 5 17, mkEnemy 6 5 18, mkEnemy 9 5 19, mkEnemy 12 5 20,
       mkEnemy 15 5 21, mkEnemy 18 5 22, mkEnemy 21 5 23, mkEnemy 24 5 24], 24)"
  by code_simp

lemma game_initWorld:
  "game initWorld = sampleGame (fst (createEnemies 0)) Right []"
  by (simp add: initWorld_def sampleGame_def new_SpaceInvaders_def emit_def Let_def split_def)

lemma game_initWorld_full:
  "game initWorld =
     \<lparr>player = \<lparr>p_x = 20, p_y = 19\<rparr>, width = 40, height = 20, isGameRunning = True,
      enemies = fst (createEnemies 0), enemyDirection = Right, bullets = []\<rparr>"
  by (simp add: game_initWorld sampleGame_eq)

lemma process_initWorld: "process initWorld = Alive" "gameLoop initWorld" "count_var initWorld = 24"
  by (simp_all add: initWorld_def emit_def new_SpaceInvaders_def createEnemies_0 Let_def)

section \<open>Projectiles and collisions\<close>

lemma moveBullets_enemies:
  "enemies (moveBullets g) =
     filter (\<lambda>e. \<not> (\<exists>b\<in>set (bullets g). b_x b = e_x e \<and> b_y b - 1 = e_y e)) (enemies g)"
  unfolding moveBullets_def Let_def
  by (auto simp: getCoordinate_inj image_iff intro!: filter_cong)

lemma moveBullets_bullets:
  "bullets (moveBullets g) = filter (\<lambda>b. 0 \<le> b_y b) (map (\<lambda>b. b\<lparr>b_y := b_y b - 1\<rparr>) (bullets g))"
  unfolding moveBullets_def Let_def by simp

lemma moveBullets_frame:
  "player (moveBullets g) = player g \<and> width (moveBullets g) = width g \<and>
   height (moveBullets g) = height g \<and> isGameRunning (moveBullets g) = isGameRunning g \<and>
   enemyDirection (moveBullets g) = enemyDirection g"
  unfolding moveBullets_def Let_def by simp

text \<open>
  C1 as stated does not hold: a bullet that moves onto the cell of an enemy removes the enemy
  and stays in the bullet collection itself. Here the bullet moves from (5,4) to (5,3), where
  an enemy stands.
\<close>

theorem moveBullets_keeps_hitting_bullet:
  "mkBullet 5 4 25 \<in> set (bullets (sampleGame [mkEnemy 5 3 9] Right [mkBullet 5 4 25])) \<and>
   mkEnemy 5 3 9 \<in> set (enemies (sampleGame [mkEnemy 5 3 9] Right [mkBullet 5 4 25])) \<and>
   e_x (mkEnemy 5 3 9) = b_x (mkBullet 5 4 25) \<and>
   e_y (mkEnemy 5 3 9) = b_y (mkBullet 5 4 25) - 1 \<and>
   enemies (moveBullets (sampleGame [mkEnemy 5 3 9] Right [mkBullet 5 4 25])) = [] \<and>
   bullets (moveBullets (sampleGame [mkEnemy 5 3 9] Right [mkBullet 5 4 25])) = [mkBullet 5 3 25]"
  by (simp add: moveBullets_enemies moveBullets_bullets sampleGame_eq mkEnemy_eq mkBullet_eq)

text \<open>
  C1, amended: when after the move a bullet and an enemy are at the same position,
  \<open>moveBullets\<close> removes the enemy (no enemy is left at that position) in the same call;
  the bullet stays in the bullet collection exactly when its y is still at least 0.
\<close>

theorem moveBullets_collision:
  assumes "b \<in> set (bullets g)" and "e \<in> set (enemies g)"
    and "e_x e = b_x b" and "e_y e = b_y b - 1"
  shows "e \<notin> set (enemies (moveBullets g)) \<and>
         (\<forall>e'\<in>set (enemies (moveBullets g)). \<not> (e_x e' = b_x b \<and> e_y e' = b_y b - 1)) \<and>
         (b\<lparr>b_y := b_y b - 1\<rparr> \<in> set (bullets (moveBullets g)) \<longleftrightarrow> 0 \<le> b_y b - 1)"
  using assms by (auto simp: moveBullets_enemies moveBullets_bullets)

text \<open>Two bullets, one hitting an enemy at (5,3), one leaving the board at the top.\<close>

theorem moveBullets_collision_witness:
  "enemies (moveBullets (sampleGame [mkEnemy 5 3 9, mkEnemy 8 3 10] Right [mkBullet 5 4 25, mkBullet 8 0 26]))
     = [mkEnemy 8 3 10] \<and>
   mkBullet 5 3 25 \<in> set (bullets (moveBullets
     (sampleGame [mkEnemy 5 3 9, mkEnemy 8 3 10] Right [mkBullet 5 4 25, mkBullet 8 0 26])))"
  using moveBullets_collision [of "mkBullet 5 4 25"
      "sampleGame [mkEnemy 5 3 9, mkEnemy 8 3 10] Right [mkBullet 5 4 25, mkBullet 8 0 26]" "mkEnemy 5 3 9"]
  by (simp add: moveBullets_enemies moveBullets_bullets sampleGame_eq mkEnemy_eq mkBullet_eq)

text \<open>
  C2 as stated does not hold: a bullet that moves from (5,3) to (5,2) leaves the enemy at
  (5,3), the cell it moved from, in the enemy collection.
\<close>

theorem moveBullets_passes_enemy_at_old_cell:
  "mkBullet 5 3 25 \<in> set (bullets (sampleGame [mkEnemy 5 3 9] Right [mkBullet 5 3 25])) \<and>
   mkEnemy 5 3 9 \<in> set (enemies (sampleGame [mkEnemy 5 3 9] Right [mkBullet 5 3 25])) \<and>
   e_x (mkEnemy 5 3 9) = b_x (mkBullet 5 3 25) \<and>
   e_y (mkEnemy 5 3 9) = b_y (mkBullet 5 3 25) \<and>
   bullets (moveBullets (sampleGame [mkEnemy 5 3 9] Right [mkBullet 5 3 25])) = [mkBullet 5 2 25] \<and>
   enemies (moveBullets (sampleGame [mkEnemy 5 3 9] Right [mkBullet 5 3 25])) = [mkEnemy 5 3 9]"
  by (simp add: moveBullets_enemies moveBullets_bullets sampleGame_eq mkEnemy_eq mkBullet_eq)

text \<open>
  C2, amended: when a bullet moves from (x,y+1) to (x,y), no enemy is left at (x,y),
  the cell it moved to; an enemy at (x,y+1), the cell it moved from, is removed only when
  another bullet moves to (x,y+1) in the same call.
\<close>

theorem moveBullets_post_move_cell:
  assumes "b \<in> set (bullets g)"
  shows "(\<forall>e\<in>set (enemies (moveBullets g)). \<not> (e_x e = b_x b \<and> e_y e = b_y b - 1)) \<and>
         (\<forall>e\<in>set (enemies g). e_x e = b_x b \<and> e_y e = b_y b \<longrightarrow>
            (e \<in> set (enemies (moveBullets g)) \<longleftrightarrow>
             \<not> (\<exists>b'\<in>set (bullets g). b_x b' = b_x b \<and> b_y b' = b_y b + 1)))"
  using assms by (auto simp: moveBullets_enemies)

text \<open>The enemy at the new cell (5,2) goes, the one at the old cell (5,3) stays.\<close>

theorem moveBullets_post_move_cell_witness:
  "enemies (moveBullets (sampleGame [mkEnemy 5 3 9, mkEnemy 5 2 1] Right [mkBullet 5 3 25]))
     = [mkEnemy 5 3 9]"
  using moveBullets_post_move_cell [of "mkBullet 5 3 25"
      "sampleGame [mkEnemy 5 3 9, mkEnemy 5 2 1] Right [mkBullet 5 3 25]"]
  by (simp add: moveBullets_enemies sampleGame_eq mkEnemy_eq mkBullet_eq)

section \<open>The enemy formation\<close>

lemma moveEnemies_enemies:
  "enemies (moveEnemies g) = map (\<lambda>e. e\<lparr>e_x := e_x e + directionVector g\<rparr>) (enemies g)"
  unfolding moveEnemies_def Let_def by simp

lemma moveEnemies_frame:
  "player (moveEnemies g) = player g \<and> width (moveEnemies g) = width g \<and>
   height (moveEnemies g) = height g \<and> isGameRunning (moveEnemies g) = isGameRunning g \<and>
   bullets (moveEnemies g) = bullets g"
  unfolding moveEnemies_def Let_def by simp

lemma moveEnemies_direction:
  "enemies g \<noteq> [] \<Longrightarrow>
   enemyDirection (moveEnemies g) =
     (if Max (set (map e_x (enemies g))) + directionVector g \<ge> width g - 1 \<or>
         Min (set (map e_x (enemies g))) + directionVector g \<le> 0
      then flipDirection (enemyDirection g) else enemyDirection g)"
  unfolding moveEnemies_def Let_def by (simp add: Math_min_Min Math_max_Max)

lemma moveEnemies_no_enemies: "enemies g = [] \<Longrightarrow> moveEnemies g = g"
  by (simp add: moveEnemies_def Let_def)

text \<open>
  C5: with no enemy left, \<open>moveEnemies\<close> changes nothing: the collection stays empty,
  the stored direction is not flipped (whichever it is), and every other field is as before.
\<close>

theorem moveEnemies_empty: "enemies g = [] \<Longrightarrow> moveEnemies g = g"
  unfolding moveEnemies_def Let_def by simp

text \<open>With no enemy, the stored direction Left stays Left and Right stays Right.\<close>

theorem moveEnemies_empty_witness:
  "enemies (sampleGame [] Left []) = [] \<and> moveEnemies (sampleGame [] Left []) = sampleGame [] Left []
   \<and> enemyDirection (moveEnemies (sampleGame [] Right [])) = Right"
  using moveEnemies_empty [of "sampleGame [] Left []"] moveEnemies_empty [of "sampleGame [] Right []"]
  by (simp add: sampleGame_eq)

text \<open>
  C3: for a formation that is not empty, with its rightmost x at \<open>width - 2\<close> and the
  stored direction Right, one \<open>moveEnemies\<close> stores Left and still adds 1 to every x.
  In general, when the step would bring the rightmost enemy to \<open>width - 1\<close> or beyond, or
  the leftmost to 0 or below, the stored direction is flipped, and the move applied to every
  enemy is the one of the direction before the flip.
\<close>

theorem moveEnemies_flip:
  assumes "enemies g \<noteq> []"
  shows "(Max (set (map e_x (enemies g))) = width g - 2 \<and> enemyDirection g = Right \<longrightarrow>
            enemyDirection (moveEnemies g) = Left \<and>
            map e_x (enemies (moveEnemies g)) = map (\<lambda>e. e_x e + 1) (enemies g))
       \<and> (Max (set (map e_x (enemies g))) + directionVector g \<ge> width g - 1 \<or>
          Min (set (map e_x (enemies g))) + directionVector g \<le> 0 \<longrightarrow>
            enemyDirection (moveEnemies g) = flipDirection (enemyDirection g) \<and>
            enemies (moveEnemies g) = map (\<lambda>e. e\<lparr>e_x := e_x e + directionVector g\<rparr>) (enemies g))"
  using assms by (simp add: moveEnemies_direction moveEnemies_enemies directionVector_def)

text \<open>
  At the right edge (rightmost x 38 on a board 40 wide) and at the left edge (leftmost x 1).
\<close>

theorem moveEnemies_flip_witness:
  "enemyDirection (moveEnemies (sampleGame [mkEnemy 35 1 1, mkEnemy 38 1 2] Right [])) = Left \<and>
   map e_x (enemies (moveEnemies (sampleGame [mkEnemy 35 1 1, mkEnemy 38 1 2] Right []))) = [36, 39] \<and>
   enemyDirection (moveEnemies (sampleGame [mkEnemy 1 1 1, mkEnemy 4 1 2] Left [])) = Right \<and>
   map e_x (enemies (moveEnemies (sampleGame [mkEnemy 1 1 1, mkEnemy 4 1 2] Left []))) = [0, 3]"
  using moveEnemies_flip [of "sampleGame [mkEnemy 35 1 1, mkEnemy 38 1 2] Right []"]
    moveEnemies_flip [of "sampleGame [mkEnemy 1 1 1, mkEnemy 4 1 2] Left []"]
  by (simp add: sampleGame_eq mkEnemy_eq directionVector_def)

lemma xOffsets_shift: "xOffsets (map (\<lambda>e. e\<lparr>e_x := e_x e + d\<rparr>) es) = xOffsets es"
  unfolding xOffsets_def by (simp add: map_concat comp_def)

text \<open>
  C7: \<open>moveEnemies\<close> adds the same amount, 1 or -1, to the x of every enemy, so the
  multiset of the x-offsets between enemies is unchanged; the y, the identifier and the glyph
  of every enemy, the player and the bullets are unchanged.
\<close>

theorem moveEnemies_uniform:
  "(directionVector g = 1 \<or> directionVector g = - 1) \<and>
   map e_x (enemies (moveEnemies g)) = map (\<lambda>e. e_x e + directionVector g) (enemies g) \<and>
   map e_y (enemies (moveEnemies g)) = map e_y (enemies g) \<and>
   map e_id (enemies (moveEnemies g)) = map e_id (enemies g) \<and>
   map e_character (enemies (moveEnemies g)) = map e_character (enemies g) \<and>
   mset (xOffsets (enemies (moveEnemies g))) = mset (xOffsets (enemies g)) \<and>
   player (moveEnemies g) = player g \<and> bullets (moveEnemies g) = bullets g"
  by (simp add: moveEnemies_enemies moveEnemies_frame xOffsets_shift directionVector_def)

text \<open>A formation of two moving left: both x go down by 1, the offsets stay 0, 3, -3, 0.\<close>

theorem moveEnemies_uniform_witness:
  "directionVector (sampleGame [mkEnemy 3 1 1, mkEnemy 6 3 2] Left [mkBullet 20 18 25]) = - 1 \<and>
   enemies (moveEnemies (sampleGame [mkEnemy 3 1 1, mkEnemy 6 3 2] Left [mkBullet 20 18 25]))
     = [mkEnemy 2 1 1, mkEnemy 5 3 2] \<and>
   xOffsets (enemies (moveEnemies (sampleGame [mkEnemy 3 1 1, mkEnemy 6 3 2] Left [mkBullet 20 18 25])))
     = [0, 3, - 3, 0] \<and>
   xOffsets (enemies (sampleGame [mkEnemy 3 1 1, mkEnemy 6 3 2] Left [mkBullet 20 18 25]))
     = [0, 3, - 3, 0] \<and>
   bullets (moveEnemies (sampleGame [mkEnemy 3 1 1, mkEnemy 6 3 2] Left [mkBullet 20 18 25]))
     = [mkBullet 20 18 25]"
  using moveEnemies_uniform [of "sampleGame [mkEnemy 3 1 1, mkEnemy 6 3 2] Left [mkBullet 20 18 25]"]
  by (simp add: moveEnemies_enemies sampleGame_eq mkEnemy_eq mkBullet_eq directionVector_def
      xOffsets_def)

section \<open>The session invariant\<close>

lemma sessionInv_onBoard: "sessionInv g \<Longrightarrow> onBoard g"
  unfolding sessionInv_def onBoard_def by (auto split: if_splits)

lemma sessionInv_init: "sessionInv (game initWorld)"
  by (simp add: game_initWorld createEnemies_0 sampleGame_eq sessionInv_def mkEnemy_eq)

lemma sessionInv_moveBullets: "sessionInv g \<Longrightarrow> sessionInv (moveBullets g)"
  unfolding sessionInv_def
  by (auto simp: moveBullets_enemies moveBullets_bullets moveBullets_frame split: if_splits)

lemma formation_extremes:
  assumes "enemies g \<noteq> []" and "\<forall>e\<in>set (enemies g). lo \<le> e_x e \<and> e_x e \<le> hi"
  shows "lo \<le> Min (set (map e_x (enemies g))) \<and> Max (set (map e_x (enemies g))) \<le> hi \<and>
         (\<forall>e\<in>set (enemies g). Min (set (map e_x (enemies g))) \<le> e_x e \<and>
                                 e_x e \<le> Max (set (map e_x (enemies g))))"
proof -
  let ?xs = "set (map e_x (enemies g))"
  have fin: "finite ?xs" and ne: "?xs \<noteq> {}" using assms(1) by auto
  have "Max ?xs \<in> ?xs" and "Min ?xs \<in> ?xs" using fin ne by (auto intro: Max_in Min_in)
  with assms(2) have "lo \<le> Min ?xs" and "Max ?xs \<le> hi" by auto
  moreover have "Min ?xs \<le> e_x e \<and> e_x e \<le> Max ?xs" if "e \<in> set (enemies g)" for e
    using that fin by auto
  ultimately show ?thesis by blast
qed

lemma sessionInv_moveEnemies: "sessionInv g \<Longrightarrow> sessionInv (moveEnemies g)"
proof (cases "enemies g = []")
  case True
  assume "sessionInv g"
  with True show ?thesis by (simp add: moveEnemies_no_enemies)
next
  case False
  assume inv: "sessionInv g"
  let ?mn = "Min (set (map e_x (enemies g)))" and ?mx = "Max (set (map e_x (enemies g)))"
  show ?thesis
  proof (cases "enemyDirection g")
    case Right
    with inv have "\<forall>e\<in>set (enemies g). 0 \<le> e_x e \<and> e_x e \<le> 38"
      by (simp add: sessionInv_def)
    from formation_extremes [OF False this]
    have ext: "0 \<le> ?mn" "?mx \<le> 38" "\<forall>e\<in>set (enemies g). e_x e \<le> ?mx" by auto
    show ?thesis
    proof (cases "?mx = 38")
      case True
      with inv Right False ext show ?thesis
        unfolding sessionInv_def
        by (auto simp add: moveEnemies_enemies moveEnemies_frame moveEnemies_direction directionVector_def)
    next
      case False
      with ext have "?mx \<le> 37" by simp
      with inv Right \<open>enemies g \<noteq> []\<close> ext show ?thesis
        unfolding sessionInv_def
        by (fastforce simp add: moveEnemies_enemies moveEnemies_frame moveEnemies_direction directionVector_def)
    qed
  next
    case Left
    with inv have "\<forall>e\<in>set (enemies g). 1 \<le> e_x e \<and> e_x e \<le> 39"
      by (simp add: sessionInv_def)
    from formation_extremes [OF False this]
    have ext: "1 \<le> ?mn" "?mx \<le> 39" "\<forall>e\<in>set (enemies g). ?mn \<le> e_x e" by auto
    show ?thesis
    proof (cases "?mn = 1")
      case True
      with inv Left False ext show ?thesis
        unfolding sessionInv_def
        by (auto simp add: moveEnemies_enemies moveEnemies_frame moveEnemies_direction directionVector_def)
    next
      case False
      with ext have "2 \<le> ?mn" by simp
      with inv Left \<open>enemies g \<noteq> []\<close> ext show ?thesis
        unfolding sessionInv_def
        by (fastforce simp add: moveEnemies_enemies moveEnemies_frame moveEnemies_direction directionVector_def)
    qed
  qed
qed

lemma game_emit [simp]: "game (emit out w) = game w"
  by (simp add: emit_def)

lemma game_crash [simp]: "game (crash e w) = game w"
  by (simp add: crash_def)

lemma game_render [simp]: "game (render w) = game w"
  by (simp add: render_def Let_def split: sum.splits)

lemma gameLoop_render [simp]: "gameLoop (render w) = gameLoop w"
  by (simp add: render_def Let_def emit_def crash_def split: sum.splits)

lemma count_var_render [simp]: "count_var (render w) = count_var w"
  by (simp add: render_def Let_def emit_def crash_def split: sum.splits)

lemma game_createBullet:
  "game (createBullet w) =
     (game w)\<lparr>bullets := bullets (game w) @
        [\<lparr>b_x = p_x (player (game w)), b_y = p_y (player (game w)) - 1,
          b_character = BulletGlyph, b_id = count_var w + 1\<rparr>]\<rparr>"
  by (simp add: createBullet_def new_Bullet_def createId_def Let_def)

lemma game_gameOver: "game (gameOver m w) = (game w)\<lparr>isGameRunning := False\<rparr>"
  by (simp add: gameOver_def Let_def)

lemma game_keypress:
  "game (keypress key w) =
     (let g = game w
      in if k_name key = Some ''left'' \<and> p_x (player g) > 0
         then g\<lparr>player := (player g)\<lparr>p_x := p_x (player g) - 1\<rparr>\<rparr>
         else if k_name key = Some ''right'' \<and> p_x (player g) < width g - 1
         then g\<lparr>player := (player g)\<lparr>p_x := p_x (player g) + 1\<rparr>\<rparr>
         else if isQuit key then g\<lparr>isGameRunning := False\<rparr>
         else if k_name key = Some ''space'' then game (createBullet w)
         else g)"
  by (simp add: keypress_def Let_def game_gameOver)

lemma game_gameLoopTick:
  "game (gameLoopTick w) =
     (if isGameRunning (game w) then moveBullets (moveEnemies (game w)) else game w)"
  by (simp add: gameLoopTick_def)

lemma sessionInv_keypress: "sessionInv (game w) \<Longrightarrow> sessionInv (game (keypress key w))"
  by (auto simp add: game_keypress game_createBullet Let_def sessionInv_def)

lemma sessionInv_gameLoopTick: "sessionInv (game w) \<Longrightarrow> sessionInv (game (gameLoopTick w))"
  by (simp add: game_gameLoopTick sessionInv_moveBullets sessionInv_moveEnemies)

lemma sessionInv_deliver: "sessionInv (game w) \<Longrightarrow> sessionInv (game (deliver ev w))"
  by (simp add: deliver_def sessionInv_keypress sessionInv_gameLoopTick split: event.splits)

lemma run_Nil [simp]: "run [] w = w"
  by (simp add: run_def)

lemma run_snoc [simp]: "run (evs @ [ev]) w = deliver ev (run evs w)"
  by (simp add: run_def)

lemma sessionInv_run: "sessionInv (game w) \<Longrightarrow> sessionInv (game (run evs w))"
  by (induction evs rule: rev_induct) (simp_all add: sessionInv_deliver)

lemma sessionInv_reachable: "sessionInv (game (run evs initWorld))"
  by (rule sessionInv_run [OF sessionInv_init])

lemma sessionInv_render_facts: "sessionInv g \<Longrightarrow> onBoard g \<and> fitsArrays g \<and> defaultGlyphs g"
  by (auto simp: sessionInv_onBoard) (auto simp: sessionInv_def fitsArrays_def defaultGlyphs_def)

text \<open>Every reachable state meets the three conditions under which rendering is described.\<close>

lemma reachable_renderable:
  "onBoard (game (run evs initWorld)) \<and> fitsArrays (game (run evs initWorld)) \<and>
   defaultGlyphs (game (run evs initWorld))"
  by (rule sessionInv_render_facts [OF sessionInv_reachable])

section \<open>Writes on a rectangular board\<close>

lemma rect_put: "rect H W b \<Longrightarrow> rect H W (put b t)"
proof -
  assume r: "rect H W b"
  obtain y x v where t: "t = (y, x, v)" by (cases t)
  have "length (b[nat y := (b ! nat y)[nat x := v]] ! i) = W" if "i < H" for i
    using r that by (cases "nat y = i") (simp_all add: rect_def)
  with r show ?thesis by (simp add: rect_def put_def t)
qed

lemma writeCell_inside:
  "rect H W b \<Longrightarrow> inside H W t \<Longrightarrow> writeCell b t = Inr (put b t)"
  by (cases t) (auto simp: writeCell_def setCell_def arraySet_def inside_def put_def rect_def)

lemma put_nth:
  "rect H W b \<Longrightarrow> inside H W t \<Longrightarrow> i < H \<Longrightarrow> j < W \<Longrightarrow>
   put b t ! i ! j = (if hits i j t then snd (snd t) else b ! i ! j)"
  by (cases t) (auto simp: put_def hits_def inside_def rect_def nth_list_update)

lemma forEachE_writeCell:
  "rect H W b \<Longrightarrow> \<forall>t\<in>set ts. inside H W t \<Longrightarrow>
   forEachE writeCell ts b = Inr (foldl put b ts) \<and> rect H W (foldl put b ts)"
proof (induction ts arbitrary: b)
  case Nil
  then show ?case by simp
next
  case (Cons t ts)
  then have "writeCell b t = Inr (put b t)" and "rect H W (put b t)"
    by (simp_all add: writeCell_inside rect_put)
  with Cons show ?case by simp
qed

lemma rect_foldl_put: "rect H W b \<Longrightarrow> rect H W (foldl put b ts)"
  by (induction ts arbitrary: b) (simp_all add: rect_put)

lemma foldl_put_nth:
  "rect H W b \<Longrightarrow> \<forall>t\<in>set ts. inside H W t \<Longrightarrow> i < H \<Longrightarrow> j < W \<Longrightarrow>
   foldl put b ts ! i ! j =
     (case find (hits i j) (rev ts) of Some t \<Rightarrow> snd (snd t) | None \<Rightarrow> b ! i ! j)"
proof (induction ts rule: rev_induct)
  case Nil
  then show ?case by simp
next
  case (snoc t ts)
  then have "rect H W (foldl put b ts)" and "inside H W t"
    by (simp_all add: rect_foldl_put)
  with snoc show ?case by (simp add: put_nth)
qed

lemma forEachE_append:
  "forEachE f (xs @ ys) s = bindE (forEachE f xs s) (forEachE f ys)"
  by (induction xs arbitrary: s) (simp_all add: bindE_def split: sum.splits)

lemma forEachE_map: "forEachE (\<lambda>s a. f s (h a)) xs s = forEachE f (map h xs) s"
  by (induction xs arbitrary: s) (simp_all split: sum.splits)

lemma forEachE_cong:
  "(\<And>s a. a \<in> set xs \<Longrightarrow> f s a = f' s a) \<Longrightarrow> forEachE f xs s = forEachE f' xs s"
  by (induction xs arbitrary: s) (simp_all split: sum.splits)

lemma forEachE_concat:
  "forEachE (\<lambda>s a. forEachE f (h a) s) xs s = forEachE f (concat (map h xs)) s"
  by (induction xs arbitrary: s) (simp_all add: forEachE_append bindE_def split: sum.splits)

lemma newMatrix_ok:
  "0 \<le> h \<Longrightarrow> h \<le> 4294967295 \<Longrightarrow> 0 \<le> w \<Longrightarrow> w \<le> 4294967295 \<Longrightarrow>
   newMatrix h w v = Inr (replicate (nat h) (replicate (nat w) v))"
  by (auto simp: newMatrix_def newArray_def bindE_def map_replicate_const)

lemma rect_replicate: "rect H W (replicate H (replicate W v))"
  by (simp add: rect_def)

lemma setCell_writeCell: "setCell b y x v = writeCell b (y, x, v)"
  by (simp add: writeCell_def)

lemma two_writes:
  "bindE (setCell b y1 x1 v1) (\<lambda>b'. setCell b' y2 x2 v2) = forEachE writeCell [(y1, x1, v1), (y2, x2, v2)] b"
  by (simp add: bindE_def writeCell_def split: sum.splits)

lemma drawBaseBoard_writes:
  assumes "0 \<le> height g" "height g \<le> 4294967295" "0 \<le> width g" "width g \<le> 4294967295"
  shows "drawBaseBoard g =
           forEachE writeCell (baseWrites g)
             (replicate (nat (height g)) (replicate (nat (width g)) (Str BaseBoardBackground)))"
proof -
  have e: "renderEnemies g b = forEachE writeCell (map (\<lambda>e. (e_y e, e_x e, Str (e_character e))) (enemies g)) b" for b
    unfolding renderEnemies_def setCell_writeCell by (rule forEachE_map)
  have u: "renderBullets g b = forEachE writeCell (map (\<lambda>b. (b_y b, b_x b, Str (b_character b))) (bullets g)) b" for b
    unfolding renderBullets_def setCell_writeCell by (rule forEachE_map)
  show ?thesis
    unfolding drawBaseBoard_def createBaseBoard_def baseWrites_def
    by (simp add: newMatrix_ok assms e u forEachE_append bindE_def writeCell_def split: sum.splits)
qed

lemma getCell_inside:
  "rect H W board \<Longrightarrow> 0 \<le> i \<Longrightarrow> nat i < H \<Longrightarrow> 0 \<le> j \<Longrightarrow> nat j < W \<Longrightarrow>
   getCell board i j = Inr (board ! nat i ! nat j)"
  by (simp add: getCell_def rect_def Let_def)

lemma copy_row:
  assumes "rect (nat h) (nat w) board" "i \<in> set [0 .. h - 1]"
  shows "forEachE (\<lambda>fb j. bindE (getCell board i j) (setCell fb (i + 1) (j + 1))) [0 .. w - 1] fb =
         forEachE writeCell (map (\<lambda>j. (i + 1, j + 1, board ! nat i ! nat j)) [0 .. w - 1]) fb"
proof -
  have "forEachE (\<lambda>fb j. bindE (getCell board i j) (setCell fb (i + 1) (j + 1))) [0 .. w - 1] fb =
        forEachE (\<lambda>fb j. writeCell fb (i + 1, j + 1, board ! nat i ! nat j)) [0 .. w - 1] fb"
  proof (rule forEachE_cong)
    fix s j assume "j \<in> set [0 .. w - 1]"
    with assms have "getCell board i j = Inr (board ! nat i ! nat j)"
      by (intro getCell_inside [of "nat h" "nat w"]) auto
    then show "bindE (getCell board i j) (setCell s (i + 1) (j + 1)) =
               writeCell s (i + 1, j + 1, board ! nat i ! nat j)"
      by (simp add: bindE_def writeCell_def)
  qed
  also have "\<dots> = forEachE writeCell (map (\<lambda>j. (i + 1, j + 1, board ! nat i ! nat j)) [0 .. w - 1]) fb"
    by (rule forEachE_map)
  finally show ?thesis .
qed

lemma createFullBoard_writes:
  assumes "0 \<le> height g" "height g + 2 \<le> 4294967295" "0 \<le> width g" "width g + 2 \<le> 4294967295"
    and "rect (nat (height g)) (nat (width g)) board"
  shows "createFullBoard g board =
           forEachE writeCell
             (sideWrites (height g + 2) (width g + 2) @ edgeWrites (height g + 2) (width g + 2) @
              cornerWrites (height g + 2) (width g + 2) @ copyWrites (height g) (width g) board)
             (replicate (nat (height g + 2)) (replicate (nat (width g + 2)) (Str FullBoardBackground)))"
proof -
  have copy: "forEachE (\<lambda>fb i. forEachE (\<lambda>fb j. bindE (getCell board i j) (setCell fb (i + 1) (j + 1)))
                  [0 .. width g - 1] fb) [0 .. height g - 1] fb =
              forEachE writeCell (copyWrites (height g) (width g) board) fb" for fb
  proof -
    have "forEachE (\<lambda>fb i. forEachE (\<lambda>fb j. bindE (getCell board i j) (setCell fb (i + 1) (j + 1)))
                  [0 .. width g - 1] fb) [0 .. height g - 1] fb =
          forEachE (\<lambda>fb i. forEachE writeCell
                  (map (\<lambda>j. (i + 1, j + 1, board ! nat i ! nat j)) [0 .. width g - 1]) fb) [0 .. height g - 1] fb"
      by (rule forEachE_cong) (rule copy_row [OF assms(5)])
    then show ?thesis by (simp add: forEachE_concat copyWrites_def)
  qed
  show ?thesis
    unfolding createFullBoard_def Let_def
    apply (simp only: copy [abs_def] two_writes forEachE_concat)
    using assms(1-4)
    by (simp add: newMatrix_ok forEachE_append bindE_def writeCell_def sideWrites_def edgeWrites_def
        cornerWrites_def split: sum.splits)
qed

lemma foldl_put_miss:
  assumes "rect H W b" "\<forall>t\<in>set ts. inside H W t" "i < H" "j < W"
    and "\<forall>t\<in>set ts. \<not> hits i j t"
  shows "foldl put b ts ! i ! j = b ! i ! j"
proof -
  from assms(5) have "find (hits i j) (rev ts) = None" by (simp add: find_None_iff)
  with foldl_put_nth [OF assms(1-4)] show ?thesis by simp
qed

lemma foldl_put_uniform:
  assumes "rect H W b" "\<forall>t\<in>set ts. inside H W t" "i < H" "j < W"
    and "\<exists>t\<in>set ts. hits i j t" and "\<forall>t\<in>set ts. hits i j t \<longrightarrow> snd (snd t) = v"
  shows "foldl put b ts ! i ! j = v"
proof (cases "find (hits i j) (rev ts)")
  case None
  with assms(5) show ?thesis by (fastforce simp: find_None_iff)
next
  case (Some t)
  then obtain k where "k < length (rev ts)" "hits i j (rev ts ! k)" "t = rev ts ! k"
    by (auto simp: find_Some_iff)
  then have "t \<in> set (rev ts)" and "hits i j t" by (auto simp del: set_rev)
  then have "t \<in> set ts" by simp
  note \<open>t \<in> set ts\<close> \<open>hits i j t\<close>
  with assms(6) have "snd (snd t) = v" by simp
  with foldl_put_nth [OF assms(1-4)] Some show ?thesis by simp
qed

lemma set_sideWrites:
  "t \<in> set (sideWrites h w) \<longleftrightarrow>
     (\<exists>i. 0 \<le> i \<and> i < h \<and> (t = (i, 0, Str VerticalEdge) \<or> t = (i, w - 1, Str VerticalEdge)))"
  by (auto simp: sideWrites_def)

lemma set_edgeWrites:
  "t \<in> set (edgeWrites h w) \<longleftrightarrow>
     (\<exists>i. 0 \<le> i \<and> i < w \<and> (t = (0, i, Str HorizontalEdge) \<or> t = (h - 1, i, Str HorizontalEdge)))"
  by (auto simp: edgeWrites_def)

lemma set_copyWrites:
  "t \<in> set (copyWrites h w b) \<longleftrightarrow>
     (\<exists>i j. 0 \<le> i \<and> i < h \<and> 0 \<le> j \<and> j < w \<and> t = (i + 1, j + 1, b ! nat i ! nat j))"
proof
  assume "t \<in> set (copyWrites h w b)"
  then show "\<exists>i j. 0 \<le> i \<and> i < h \<and> 0 \<le> j \<and> j < w \<and> t = (i + 1, j + 1, b ! nat i ! nat j)"
    by (auto simp: copyWrites_def)
next
  assume "\<exists>i j. 0 \<le> i \<and> i < h \<and> 0 \<le> j \<and> j < w \<and> t = (i + 1, j + 1, b ! nat i ! nat j)"
  then obtain i j where "0 \<le> i" "i < h" "0 \<le> j" "j < w" "t = (i + 1, j + 1, b ! nat i ! nat j)"
    by blast
  then have "i \<in> set [0 .. h - 1]" "t \<in> set (map (\<lambda>j. (i + 1, j + 1, b ! nat i ! nat j)) [0 .. w - 1])"
    by auto
  then show "t \<in> set (copyWrites h w b)"
    unfolding copyWrites_def by (auto simp del: set_upto)
qed

lemma inside_sideWrites:
  "0 < h \<Longrightarrow> 0 < w \<Longrightarrow> w \<le> 4294967295 \<Longrightarrow> \<forall>t\<in>set (sideWrites h w). inside (nat h) (nat w) t"
  by (auto simp: set_sideWrites inside_def)

lemma inside_edgeWrites:
  "0 < h \<Longrightarrow> 0 < w \<Longrightarrow> w \<le> 4294967295 \<Longrightarrow> \<forall>t\<in>set (edgeWrites h w). inside (nat h) (nat w) t"
  by (auto simp: set_edgeWrites inside_def)

lemma inside_cornerWrites:
  "0 < h \<Longrightarrow> 0 < w \<Longrightarrow> w \<le> 4294967295 \<Longrightarrow> \<forall>t\<in>set (cornerWrites h w). inside (nat h) (nat w) t"
  by (auto simp: cornerWrites_def inside_def)

lemma inside_copyWrites:
  "0 \<le> h \<Longrightarrow> 0 \<le> w \<Longrightarrow> w + 2 \<le> 4294967295 \<Longrightarrow>
   \<forall>t\<in>set (copyWrites h w b). inside (nat (h + 2)) (nat (w + 2)) t"
  by (auto simp: set_copyWrites inside_def)

section \<open>The rendered board\<close>

lemma drawBaseBoard_cells:
  assumes ob: "onBoard g" and fit: "fitsArrays g" and gl: "defaultGlyphs g"
  shows "\<exists>bb. drawBaseBoard g = Inr bb \<and> rect (nat (height g)) (nat (width g)) bb \<and>
           (\<forall>x y. 0 \<le> x \<and> x < width g \<and> 0 \<le> y \<and> y < height g \<longrightarrow>
                  bb ! nat y ! nat x = expectedCell g x y)"
proof -
  let ?H = "nat (height g)" and ?W = "nat (width g)"
  let ?E = "map (\<lambda>e. (e_y e, e_x e, Str (e_character e))) (enemies g)"
  let ?B = "map (\<lambda>b. (b_y b, b_x b, Str (b_character b))) (bullets g)"
  let ?P = "(p_y (player g), p_x (player g), Str PlayerGlyph)"
  let ?b0 = "replicate ?H (replicate ?W (Str BaseBoardBackground))"
  let ?bE = "foldl put ?b0 ?E"
  let ?bB = "foldl put ?bE ?B"
  let ?bb = "put ?bB ?P"
  from ob fit have dims: "0 \<le> height g" "height g \<le> 4294967295" "0 \<le> width g" "width g \<le> 4294967295"
    by (auto simp: onBoard_def fitsArrays_def)
  have inE: "\<forall>t\<in>set ?E. inside ?H ?W t" and inB: "\<forall>t\<in>set ?B. inside ?H ?W t"
    and inP: "inside ?H ?W ?P"
    using ob fit by (auto simp: onBoard_def fitsArrays_def inside_def)
  have r0: "rect ?H ?W ?b0" by (rule rect_replicate)
  then have rE: "rect ?H ?W ?bE" by (rule rect_foldl_put)
  then have rB: "rect ?H ?W ?bB" by (rule rect_foldl_put)
  then have rb: "rect ?H ?W ?bb" by (rule rect_put)
  have all: "\<forall>t\<in>set (baseWrites g). inside ?H ?W t"
    using inE inB inP by (auto simp: baseWrites_def)
  have "drawBaseBoard g = Inr (foldl put ?b0 (baseWrites g))"
    using forEachE_writeCell [OF r0 all] by (simp add: drawBaseBoard_writes [OF dims])
  then have d: "drawBaseBoard g = Inr ?bb" by (simp add: baseWrites_def)
  have cell: "?bb ! nat y ! nat x = expectedCell g x y"
    if xy: "0 \<le> x" "x < width g" "0 \<le> y" "y < height g" for x y
  proof -
    from xy have i: "nat y < ?H" and j: "nat x < ?W" by auto
    have hitE: "hits (nat y) (nat x) t \<longleftrightarrow> fst t = y \<and> fst (snd t) = x" if "inside ?H ?W t" for t
      using that xy by (cases t) (auto simp: hits_def inside_def)
    show ?thesis
    proof (cases "p_x (player g) = x \<and> p_y (player g) = y")
      case True
      then have "hits (nat y) (nat x) ?P" by (simp add: hits_def)
      with put_nth [OF rB inP i j] True show ?thesis by (simp add: expectedCell_def)
    next
      case False
      with hitE [OF inP] have "\<not> hits (nat y) (nat x) ?P" by auto
      with put_nth [OF rB inP i j] have 1: "?bb ! nat y ! nat x = ?bB ! nat y ! nat x" by simp
      show ?thesis
      proof (cases "\<exists>b\<in>set (bullets g). b_x b = x \<and> b_y b = y")
        case True
        then have ex: "\<exists>t\<in>set ?B. hits (nat y) (nat x) t" using xy by (auto simp: hits_def)
        have un: "\<forall>t\<in>set ?B. hits (nat y) (nat x) t \<longrightarrow> snd (snd t) = Str BulletGlyph"
          using gl by (auto simp: defaultGlyphs_def)
        from foldl_put_uniform [OF rE inB i j ex un] 1 True \<open>\<not> (p_x (player g) = x \<and> p_y (player g) = y)\<close>
        show ?thesis by (auto simp add: expectedCell_def)
      next
        case noB: False
        with hitE inB have "\<forall>t\<in>set ?B. \<not> hits (nat y) (nat x) t" by fastforce
        from foldl_put_miss [OF rE inB i j this] 1
        have 2: "?bb ! nat y ! nat x = ?bE ! nat y ! nat x" by simp
        show ?thesis
        proof (cases "\<exists>e\<in>set (enemies g). e_x e = x \<and> e_y e = y")
          case True
          then have ex: "\<exists>t\<in>set ?E. hits (nat y) (nat x) t" using xy by (auto simp: hits_def)
          have un: "\<forall>t\<in>set ?E. hits (nat y) (nat x) t \<longrightarrow> snd (snd t) = Str EnemyGlyph"
            using gl by (auto simp: defaultGlyphs_def)
          from foldl_put_uniform [OF r0 inE i j ex un] 2 True noB
            \<open>\<not> (p_x (player g) = x \<and> p_y (player g) = y)\<close>
          show ?thesis by (auto simp add: expectedCell_def)
        next
          case noE: False
          with hitE inE have "\<forall>t\<in>set ?E. \<not> hits (nat y) (nat x) t" by fastforce
          from foldl_put_miss [OF r0 inE i j this] 2 i j
          have "?bb ! nat y ! nat x = Str BaseBoardBackground" by simp
          with noE noB \<open>\<not> (p_x (player g) = x \<and> p_y (player g) = y)\<close>
          show ?thesis by (auto simp add: expectedCell_def)
        qed
      qed
    qed
  qed
  from d rb cell show ?thesis by blast
qed

lemma createFullBoard_cells:
  assumes pos: "0 < height g" "0 < width g" and fit: "fitsArrays g"
    and rbb: "rect (nat (height g)) (nat (width g)) bb"
  shows "\<exists>fb. createFullBoard g bb = Inr fb \<and>
           rect (nat (height g + 2)) (nat (width g + 2)) fb \<and>
           (\<forall>x y. 0 \<le> x \<and> x < width g \<and> 0 \<le> y \<and> y < height g \<longrightarrow>
                  fb ! nat (y + 1) ! nat (x + 1) = bb ! nat y ! nat x) \<and>
           fb ! 0 ! 0 = Str TopLeftCorner \<and>
           fb ! 0 ! nat (width g + 1) = Str TopRightCorner \<and>
           fb ! nat (height g + 1) ! 0 = Str BottomLeftCorner \<and>
           fb ! nat (height g + 1) ! nat (width g + 1) = Str BottomRightCorner \<and>
           (\<forall>x. 0 < x \<and> x \<le> width g \<longrightarrow>
                fb ! 0 ! nat x = Str HorizontalEdge \<and>
                fb ! nat (height g + 1) ! nat x = Str HorizontalEdge) \<and>
           (\<forall>y. 0 < y \<and> y \<le> height g \<longrightarrow>
                fb ! nat y ! 0 = Str VerticalEdge \<and>
                fb ! nat y ! nat (width g + 1) = Str VerticalEdge)"
proof -
  let ?h = "height g" and ?w = "width g"
  let ?H = "nat (?h + 2)" and ?W = "nat (?w + 2)"
  let ?S = "sideWrites (?h + 2) (?w + 2)" and ?Ed = "edgeWrites (?h + 2) (?w + 2)"
  let ?C = "cornerWrites (?h + 2) (?w + 2)" and ?Cp = "copyWrites ?h ?w bb"
  let ?f0 = "replicate ?H (replicate ?W (Str FullBoardBackground))"
  let ?fS = "foldl put ?f0 ?S"
  let ?fE = "foldl put ?fS ?Ed"
  let ?fC = "foldl put ?fE ?C"
  let ?fb = "foldl put ?fC ?Cp"
  from fit have fit': "?w + 2 \<le> 4294967295" "?h + 2 \<le> 4294967295" by (simp_all add: fitsArrays_def)
  have inS: "\<forall>t\<in>set ?S. inside ?H ?W t" using pos fit' by (intro inside_sideWrites) auto
  have inE: "\<forall>t\<in>set ?Ed. inside ?H ?W t" using pos fit' by (intro inside_edgeWrites) auto
  have inC: "\<forall>t\<in>set ?C. inside ?H ?W t" using pos fit' by (intro inside_cornerWrites) auto
  have inCp: "\<forall>t\<in>set ?Cp. inside ?H ?W t" using pos fit' by (intro inside_copyWrites) auto
  have r0: "rect ?H ?W ?f0" by (rule rect_replicate)
  then have rS: "rect ?H ?W ?fS" by (rule rect_foldl_put)
  then have rE: "rect ?H ?W ?fE" by (rule rect_foldl_put)
  then have rC: "rect ?H ?W ?fC" by (rule rect_foldl_put)
  then have rb: "rect ?H ?W ?fb" by (rule rect_foldl_put)
  have all: "\<forall>t\<in>set (?S @ ?Ed @ ?C @ ?Cp). inside ?H ?W t"
    using inS inE inC inCp by auto
  have "createFullBoard g bb = Inr (foldl put ?f0 (?S @ ?Ed @ ?C @ ?Cp))"
    using forEachE_writeCell [OF r0 all] pos fit' rbb
    by (simp add: createFullBoard_writes)
  then have d: "createFullBoard g bb = Inr ?fb" by simp
  \<comment> \<open>a cell of the border is not written by the copy loop\<close>
  have border: "?fb ! i ! j = ?fC ! i ! j"
    if "i < ?H" "j < ?W" "i = 0 \<or> i = nat (?h + 1) \<or> j = 0 \<or> j = nat (?w + 1)" for i j
  proof -
    have "\<forall>t\<in>set ?Cp. \<not> hits i j t"
      using that(3) by (auto simp: set_copyWrites hits_def)
    from foldl_put_miss [OF rC inCp that(1,2) this] show ?thesis .
  qed
  \<comment> \<open>a cell of an edge, off the corners, is not written as a corner\<close>
  have edge: "?fC ! i ! j = ?fE ! i ! j"
    if "i < ?H" "j < ?W" "(0 < i \<and> i < nat (?h + 1)) \<or> (0 < j \<and> j < nat (?w + 1))" for i j
  proof -
    have "\<forall>t\<in>set ?C. \<not> hits i j t"
      using that(3) pos by (auto simp: cornerWrites_def hits_def)
    from foldl_put_miss [OF rE inC that(1,2) this] show ?thesis .
  qed
  have interior: "?fb ! nat (y + 1) ! nat (x + 1) = bb ! nat y ! nat x"
    if xy: "0 \<le> x" "x < ?w" "0 \<le> y" "y < ?h" for x y
  proof -
    from xy have i: "nat (y + 1) < ?H" and j: "nat (x + 1) < ?W" by auto
    have ex: "\<exists>t\<in>set ?Cp. hits (nat (y + 1)) (nat (x + 1)) t"
      using xy by (auto simp: set_copyWrites hits_def)
    have un: "\<forall>t\<in>set ?Cp. hits (nat (y + 1)) (nat (x + 1)) t \<longrightarrow> snd (snd t) = bb ! nat y ! nat x"
    proof (intro ballI impI)
      fix t assume "t \<in> set ?Cp" and h: "hits (nat (y + 1)) (nat (x + 1)) t"
      then obtain i j where ij: "0 \<le> i" "0 \<le> j" "t = (i + 1, j + 1, bb ! nat i ! nat j)"
        by (auto simp: set_copyWrites)
      with h xy have "i = y" and "j = x" by (auto simp add: hits_def)
      with ij show "snd (snd t) = bb ! nat y ! nat x" by simp
    qed
    from foldl_put_uniform [OF rC inCp i j ex un] show ?thesis .
  qed
  have corner: "?fC ! i ! j = v"
    if "i < ?H" "j < ?W" "\<exists>t\<in>set ?C. hits i j t" "\<forall>t\<in>set ?C. hits i j t \<longrightarrow> snd (snd t) = v" for i j v
    using foldl_put_uniform [OF rE inC that] .
  have c1: "?fb ! 0 ! 0 = Str TopLeftCorner"
    using pos by (subst border, simp_all, intro corner) (auto simp: cornerWrites_def hits_def)
  have c2: "?fb ! 0 ! nat (?w + 1) = Str TopRightCorner"
    using pos by (subst border, simp_all, intro corner) (auto simp: cornerWrites_def hits_def)
  have c3: "?fb ! nat (?h + 1) ! 0 = Str BottomLeftCorner"
    using pos by (subst border, simp_all, intro corner) (auto simp: cornerWrites_def hits_def)
  have c4: "?fb ! nat (?h + 1) ! nat (?w + 1) = Str BottomRightCorner"
    using pos by (subst border, simp_all, intro corner) (auto simp: cornerWrites_def hits_def)
  have horiz: "?fb ! i ! nat x = Str HorizontalEdge"
    if x: "0 < x" "x \<le> ?w" and i: "i = 0 \<or> i = nat (?h + 1)" for x i
  proof -
    from x i pos have ij: "i < ?H" "nat x < ?W" by auto
    have "(0, x, Str HorizontalEdge) \<in> set ?Ed" "(?h + 2 - 1, x, Str HorizontalEdge) \<in> set ?Ed"
      using x by (auto simp: set_edgeWrites intro!: exI [of _ x])
    moreover have "hits 0 (nat x) (0, x, v)" "hits (nat (?h + 1)) (nat x) (?h + 2 - 1, x, v)" for v
      by (simp_all add: hits_def)
    ultimately have ex: "\<exists>t\<in>set ?Ed. hits i (nat x) t"
      using i by blast
    have un: "\<forall>t\<in>set ?Ed. hits i (nat x) t \<longrightarrow> snd (snd t) = Str HorizontalEdge"
      by (auto simp: set_edgeWrites)
    have "?fb ! i ! nat x = ?fC ! i ! nat x" using ij i by (intro border) auto
    also have "\<dots> = ?fE ! i ! nat x" using ij x by (intro edge) auto
    also have "\<dots> = Str HorizontalEdge" using foldl_put_uniform [OF rS inE ij ex un] .
    finally show ?thesis .
  qed
  have vert: "?fb ! nat y ! j = Str VerticalEdge"
    if y: "0 < y" "y \<le> ?h" and j: "j = 0 \<or> j = nat (?w + 1)" for y j
  proof -
    from y j pos have ij: "nat y < ?H" "j < ?W" by auto
    have "(y, 0, Str VerticalEdge) \<in> set ?S" "(y, ?w + 2 - 1, Str VerticalEdge) \<in> set ?S"
      using y by (auto simp: set_sideWrites intro!: exI [of _ y])
    moreover have "hits (nat y) 0 (y, 0, v)" "hits (nat y) (nat (?w + 1)) (y, ?w + 2 - 1, v)" for v
      by (simp_all add: hits_def)
    ultimately have ex: "\<exists>t\<in>set ?S. hits (nat y) j t"
      using j by blast
    have un: "\<forall>t\<in>set ?S. hits (nat y) j t \<longrightarrow> snd (snd t) = Str VerticalEdge"
      by (auto simp: set_sideWrites)
    have noE: "\<forall>t\<in>set ?Ed. \<not> hits (nat y) j t"
      using y pos by (auto simp: set_edgeWrites hits_def)
    have "?fb ! nat y ! j = ?fC ! nat y ! j" using ij j by (intro border) auto
    also have "\<dots> = ?fE ! nat y ! j" using ij y by (intro edge) auto
    also have "\<dots> = ?fS ! nat y ! j" using foldl_put_miss [OF rS inE ij noE] .
    also have "\<dots> = Str VerticalEdge" using foldl_put_uniform [OF r0 inS ij ex un] .
    finally show ?thesis .
  qed
  from d rb interior c1 c2 c3 c4 horiz vert show ?thesis by blast
qed

lemma glyph_lengths:
  "length PlayerGlyph = 1" "length BulletGlyph = 1" "length EnemyGlyph = 1"
  "length BaseBoardBackground = 1" "length VerticalEdge = 1" "length HorizontalEdge = 1"
  "length TopLeftCorner = 1" "length TopRightCorner = 1"
  "length BottomLeftCorner = 1" "length BottomRightCorner = 1"
  by (simp_all add: PlayerGlyph_def BulletGlyph_def EnemyGlyph_def BaseBoardBackground_def
      VerticalEdge_def HorizontalEdge_def TopLeftCorner_def TopRightCorner_def
      BottomLeftCorner_def BottomRightCorner_def ascii_def)

lemma expectedCell_single: "\<exists>s. expectedCell g x y = Str s \<and> length s = 1"
  by (simp add: expectedCell_def glyph_lengths)

lemma render_success:
  assumes "drawBaseBoard (game w) = Inr bb" and "createFullBoard (game w) bb = Inr fb"
  shows "render w = w\<lparr>console := console w @
           [Clear, Debug (player (game w)), Log (joinLines (map joinCells fb)), Log controlsCaption]\<rparr>"
  using assms by (simp add: render_def Let_def emit_def)

text \<open>
  C8: for a game object whose entities are on the board (and carry the glyphs their
  constructors give them, on a board that fits an array), \<open>render\<close> builds a grid of
  \<open>height + 2\<close> rows of \<open>width + 2\<close> cells, each one string of length 1. An interior cell
  shows the player where the player is, else a bullet where a bullet is, else an enemy where
  an enemy is, else the background; the border carries the four corners and the two edge
  glyphs. \<open>render\<close> changes nothing of the world but the console, to which it appends the
  clear, the debug line, the grid joined into text, and the caption.
\<close>

theorem render_grid:
  assumes ob: "onBoard g" and fit: "fitsArrays g" and gl: "defaultGlyphs g"
  shows "\<exists>grid. renderBoard g = Inr grid \<and>
           length grid = nat (height g + 2) \<and>
           (\<forall>row\<in>set grid. length row = nat (width g + 2) \<and>
                             (\<forall>c\<in>set row. \<exists>s. c = Str s \<and> length s = 1)) \<and>
           (\<forall>x y. 0 \<le> x \<and> x < width g \<and> 0 \<le> y \<and> y < height g \<longrightarrow>
                  grid ! nat (y + 1) ! nat (x + 1) = expectedCell g x y) \<and>
           grid ! 0 ! 0 = Str TopLeftCorner \<and>
           grid ! 0 ! nat (width g + 1) = Str TopRightCorner \<and>
           grid ! nat (height g + 1) ! 0 = Str BottomLeftCorner \<and>
           grid ! nat (height g + 1) ! nat (width g + 1) = Str BottomRightCorner \<and>
           (\<forall>x. 0 < x \<and> x \<le> width g \<longrightarrow>
                grid ! 0 ! nat x = Str HorizontalEdge \<and>
                grid ! nat (height g + 1) ! nat x = Str HorizontalEdge) \<and>
           (\<forall>y. 0 < y \<and> y \<le> height g \<longrightarrow>
                grid ! nat y ! 0 = Str VerticalEdge \<and>
                grid ! nat y ! nat (width g + 1) = Str VerticalEdge) \<and>
           (\<forall>w. game w = g \<longrightarrow>
                render w = w\<lparr>console := console w @
                  [Clear, Debug (player g), Log (joinLines (map joinCells grid)),
                   Log controlsCaption]\<rparr>)"
proof -
  let ?h = "height g" and ?w = "width g"
  from ob have pos: "0 < ?h" "0 < ?w" by (auto simp: onBoard_def)
  from drawBaseBoard_cells [OF ob fit gl] obtain bb where
    bb: "drawBaseBoard g = Inr bb" "rect (nat ?h) (nat ?w) bb"
    and bbc: "\<And>x y. 0 \<le> x \<Longrightarrow> x < ?w \<Longrightarrow> 0 \<le> y \<Longrightarrow> y < ?h \<Longrightarrow> bb ! nat y ! nat x = expectedCell g x y"
    by blast
  from createFullBoard_cells [OF pos fit bb(2)] obtain fb where
    fb: "createFullBoard g bb = Inr fb" "rect (nat (?h + 2)) (nat (?w + 2)) fb"
    and inner: "\<And>x y. 0 \<le> x \<Longrightarrow> x < ?w \<Longrightarrow> 0 \<le> y \<Longrightarrow> y < ?h \<Longrightarrow> fb ! nat (y + 1) ! nat (x + 1) = bb ! nat y ! nat x"
    and c: "fb ! 0 ! 0 = Str TopLeftCorner" "fb ! 0 ! nat (?w + 1) = Str TopRightCorner"
      "fb ! nat (?h + 1) ! 0 = Str BottomLeftCorner"
      "fb ! nat (?h + 1) ! nat (?w + 1) = Str BottomRightCorner"
    and hz: "\<And>x. 0 < x \<Longrightarrow> x \<le> ?w \<Longrightarrow> fb ! 0 ! nat x = Str HorizontalEdge \<and> fb ! nat (?h + 1) ! nat x = Str HorizontalEdge"
    and vt: "\<And>y. 0 < y \<Longrightarrow> y \<le> ?h \<Longrightarrow> fb ! nat y ! 0 = Str VerticalEdge \<and> fb ! nat y ! nat (?w + 1) = Str VerticalEdge"
    by blast
  have r: "renderBoard g = Inr fb" using bb(1) fb(1) by (simp add: renderBoard_def bindE_def)
  have cells: "fb ! nat (y + 1) ! nat (x + 1) = expectedCell g x y"
    if "0 \<le> x" "x < ?w" "0 \<le> y" "y < ?h" for x y
    using inner [OF that] bbc [OF that] by simp
  have single: "\<exists>s. fb ! i ! j = Str s \<and> length s = 1"
    if i: "i < nat (?h + 2)" and j: "j < nat (?w + 2)" for i j
  proof -
    consider (top) "i = 0" | (bottom) "i = nat (?h + 1)" | (mid) "0 < i" "i < nat (?h + 1)"
      using i by linarith
    then show ?thesis
    proof cases
      case top
      consider "j = 0" | "j = nat (?w + 1)" | "0 < int j" "int j \<le> ?w" using j by linarith
      then show ?thesis using top c(1,2) hz [of "int j"] by cases (auto simp: glyph_lengths)
    next
      case bottom
      consider "j = 0" | "j = nat (?w + 1)" | "0 < int j" "int j \<le> ?w" using j by linarith
      then show ?thesis using bottom c(3,4) hz [of "int j"] by cases (auto simp: glyph_lengths)
    next
      case mid
      then have y: "0 < int i" "int i \<le> ?h" by linarith+
      consider "j = 0" | "j = nat (?w + 1)" | "0 < j" "j < nat (?w + 1)" using j by linarith
      then show ?thesis
      proof cases
        case 1
        with vt [OF y] show ?thesis by (simp add: glyph_lengths)
      next
        case 2
        with vt [OF y] show ?thesis by (simp add: glyph_lengths)
      next
        case 3
        with mid have "0 \<le> int j - 1" "int j - 1 < ?w" "0 \<le> int i - 1" "int i - 1 < ?h" by linarith+
        from cells [OF this] expectedCell_single [of g "int j - 1" "int i - 1"]
        show ?thesis by simp
      qed
    qed
  qed
  have rows: "length row = nat (?w + 2) \<and> (\<forall>c\<in>set row. \<exists>s. c = Str s \<and> length s = 1)"
    if "row \<in> set fb" for row
  proof -
    from that obtain i where i: "i < length fb" "row = fb ! i" by (auto simp: in_set_conv_nth)
    with fb(2) have len: "length row = nat (?w + 2)" and i': "i < nat (?h + 2)" by (simp_all add: rect_def)
    have "\<exists>s. c = Str s \<and> length s = 1" if "c \<in> set row" for c
    proof -
      from that obtain j where "j < length row" "c = row ! j" by (auto simp: in_set_conv_nth)
      with single [OF i', of j] len i(2) show ?thesis by simp
    qed
    with len show ?thesis by blast
  qed
  have out: "render w = w\<lparr>console := console w @
      [Clear, Debug (player g), Log (joinLines (map joinCells fb)), Log controlsCaption]\<rparr>"
    if "game w = g" for w
    using render_success [of w bb fb] bb(1) fb(1) that by simp
  from fb(2) have "length fb = nat (?h + 2)" by (simp add: rect_def)
  with r rows cells c hz vt out show ?thesis by blast
qed

text \<open>The first frame: the board of the freshly constructed game.\<close>

theorem render_grid_witness:
  "onBoard (game initWorld) \<and> fitsArrays (game initWorld) \<and> defaultGlyphs (game initWorld) \<and>
   (\<exists>grid. renderBoard (game initWorld) = Inr grid \<and> length grid = 22 \<and>
      grid ! 0 ! 0 = Str TopLeftCorner \<and> grid ! 0 ! 41 = Str TopRightCorner \<and>
      grid ! 2 ! 4 = Str EnemyGlyph \<and> grid ! 2 ! 5 = Str BaseBoardBackground \<and>
      grid ! 20 ! 21 = Str PlayerGlyph \<and>
      console (render initWorld) =
        console initWorld @ [Clear, Debug \<lparr>p_x = 20, p_y = 19\<rparr>,
                             Log (joinLines (map joinCells grid)), Log controlsCaption])"
proof -
  have h: "onBoard (game initWorld)" "fitsArrays (game initWorld)" "defaultGlyphs (game initWorld)"
    using sessionInv_render_facts [OF sessionInv_init] by simp_all
  have e: "expectedCell (game initWorld) 3 1 = Str EnemyGlyph"
    "expectedCell (game initWorld) 4 1 = Str BaseBoardBackground"
    "expectedCell (game initWorld) 20 19 = Str PlayerGlyph"
    by (simp_all add: expectedCell_def game_initWorld_full createEnemies_0 mkEnemy_eq)
  from render_grid [OF h] obtain grid where
    g: "renderBoard (game initWorld) = Inr grid" "length grid = nat (height (game initWorld) + 2)"
      "\<And>x y. 0 \<le> x \<and> x < width (game initWorld) \<and> 0 \<le> y \<and> y < height (game initWorld) \<Longrightarrow>
         grid ! nat (y + 1) ! nat (x + 1) = expectedCell (game initWorld) x y"
      "grid ! 0 ! 0 = Str TopLeftCorner"
      "grid ! 0 ! nat (width (game initWorld) + 1) = Str TopRightCorner"
      "\<And>w. game w = game initWorld \<Longrightarrow>
         render w = w\<lparr>console := console w @
           [Clear, Debug (player (game initWorld)), Log (joinLines (map joinCells grid)),
            Log controlsCaption]\<rparr>"
    by blast
  from g(3) [of 3 1] g(3) [of 4 1] g(3) [of 20 19] e
  have c: "grid ! 2 ! 4 = Str EnemyGlyph" "grid ! 2 ! 5 = Str BaseBoardBackground"
    "grid ! 20 ! 21 = Str PlayerGlyph"
    by (simp_all add: game_initWorld_full)
  from g(1,2,4,5) g(6) [of initWorld] c h show ?thesis
    by (simp add: game_initWorld_full)
qed

section \<open>The process never crashes\<close>

lemma render_ok:
  assumes "sessionInv (game w)"
  shows "\<exists>out. render w = w\<lparr>console := console w @ out\<rparr>"
proof -
  from sessionInv_render_facts [OF assms]
  have ob: "onBoard (game w)" and fit: "fitsArrays (game w)" and gl: "defaultGlyphs (game w)" by auto
  from ob have pos: "0 < height (game w)" "0 < width (game w)" by (auto simp: onBoard_def)
  from drawBaseBoard_cells [OF ob fit gl] obtain bb where
    bb: "drawBaseBoard (game w) = Inr bb" "rect (nat (height (game w))) (nat (width (game w))) bb"
    by blast
  from createFullBoard_cells [OF pos fit bb(2)] obtain fb where
    "createFullBoard (game w) bb = Inr fb" by blast
  with bb(1) show ?thesis by (auto simp: render_success)
qed

lemma process_render: "sessionInv (game w) \<Longrightarrow> process (render w) = process w"
  using render_ok [of w] by auto

lemma worldInv_init: "worldInv initWorld"
  using sessionInv_init process_initWorld
  by (simp add: worldInv_def game_initWorld sampleGame_eq)

lemma process_keypress:
  "sessionInv (game w) \<Longrightarrow>
   process (keypress key w) = (if isQuit key then Exited 0 else process w)"
proof -
  assume inv: "sessionInv (game w)"
  have q: "isQuit key \<Longrightarrow> k_name key \<noteq> Some ''left'' \<and> k_name key \<noteq> Some ''right''"
    by (auto simp: isQuit_def)
  have 1: "process (render (w\<lparr>game := g'\<rparr>)) = process w" if "sessionInv g'" for g'
    using process_render [of "w\<lparr>game := g'\<rparr>"] that by simp
  have 2: "process (render (createBullet w)) = process w"
    using sessionInv_keypress [OF inv, of "\<lparr>k_name = Some ''space'', k_ctrl = False\<rparr>"]
      process_render [of "createBullet w"]
    by (simp add: game_keypress isQuit_def Let_def) (simp add: createBullet_def Let_def split_def)
  from inv have l: "p_x (player (game w)) > 0 \<Longrightarrow>
      sessionInv ((game w)\<lparr>player := (player (game w))\<lparr>p_x := p_x (player (game w)) - 1\<rparr>\<rparr>)"
    by (auto simp: sessionInv_def)
  from inv have r: "p_x (player (game w)) < width (game w) - 1 \<Longrightarrow>
      sessionInv ((game w)\<lparr>player := (player (game w))\<lparr>p_x := p_x (player (game w)) + 1\<rparr>\<rparr>)"
    by (auto simp: sessionInv_def)
  show ?thesis
    using q l r by (auto simp: keypress_def Let_def 1 2 process_render [OF inv] gameOver_def emit_def)
qed

lemma gameLoop_keypress: "gameLoop (keypress key w) = gameLoop w"
  by (simp add: keypress_def Let_def gameOver_def emit_def createBullet_def split_def)

lemma isGameRunning_keypress:
  "isGameRunning (game (keypress key w)) = (isGameRunning (game w) \<and> \<not> isQuit key)"
  by (auto simp: game_keypress game_createBullet Let_def isQuit_def)

lemma isGameRunning_gameLoopTick:
  "isGameRunning (game (gameLoopTick w)) = isGameRunning (game w)"
  by (simp add: game_gameLoopTick moveBullets_frame moveEnemies_frame)

lemma worldInv_deliver: "worldInv w \<Longrightarrow> worldInv (deliver ev w)"
proof (cases "process w = Alive")
  case False
  assume "worldInv w"
  with False show ?thesis by (simp add: deliver_def)
next
  case True
  assume inv: "worldInv w"
  then have s: "sessionInv (game w)" and run: "isGameRunning (game w)" and gl: "gameLoop w"
    using True by (simp_all add: worldInv_def)
  show ?thesis
  proof (cases ev)
    case (Keypress key)
    with True s run gl show ?thesis
      by (simp add: deliver_def worldInv_def sessionInv_keypress process_keypress
          gameLoop_keypress isGameRunning_keypress)
  next
    case Timer
    have "process (gameLoopTick w) = process w"
      using run process_render [of "w\<lparr>game := moveBullets (moveEnemies (game w))\<rparr>"]
        sessionInv_moveBullets [OF sessionInv_moveEnemies [OF s]]
      by (simp add: gameLoopTick_def)
    moreover have "gameLoop (gameLoopTick w)" using run gl by (simp add: gameLoopTick_def)
    ultimately show ?thesis using Timer True s run gl
      by (simp add: deliver_def worldInv_def sessionInv_gameLoopTick isGameRunning_gameLoopTick)
  qed
qed

lemma worldInv_run: "worldInv w \<Longrightarrow> worldInv (run evs w)"
  by (induction evs rule: rev_induct) (simp_all add: worldInv_deliver)

lemma worldInv_reachable: "worldInv (run evs initWorld)"
  by (rule worldInv_run [OF worldInv_init])

lemma game_deliver:
  "worldInv w \<Longrightarrow>
   game (deliver ev w) =
     (if isGameRunning (game w)
      then (case ev of Keypress key \<Rightarrow> game (keypress key w)
                     | Timer \<Rightarrow> moveBullets (moveEnemies (game w)))
      else game w)"
  by (auto simp: worldInv_def deliver_def game_gameLoopTick split: event.splits)

lemma not_crashed_reachable: "process (run evs initWorld) \<noteq> Crashed e"
  using worldInv_reachable [of evs] by (auto simp: worldInv_def)

section \<open>Quitting\<close>

lemma isGameRunning_deliver_stays:
  "\<not> isGameRunning (game w) \<Longrightarrow> \<not> isGameRunning (game (deliver ev w))"
  by (simp add: deliver_def isGameRunning_keypress isGameRunning_gameLoopTick split: event.splits)

lemma isGameRunning_deliver_quit:
  "process w = Alive \<Longrightarrow> isGameRunning (game w) \<Longrightarrow>
   (\<not> isGameRunning (game (deliver ev w))) = (\<exists>key. ev = Keypress key \<and> isQuit key)"
  by (cases ev) (simp_all add: deliver_def isGameRunning_keypress isGameRunning_gameLoopTick)

lemma quitTransitions_stopped: "\<not> isGameRunning (game w) \<Longrightarrow> quitTransitions evs w = 0"
  by (induction evs arbitrary: w) (simp_all add: isGameRunning_deliver_stays)

lemma quitTransitions_le: "quitTransitions evs w \<le> 1"
proof (induction evs arbitrary: w)
  case Nil
  then show ?case by simp
next
  case (Cons ev evs)
  show ?case
  proof (cases "isGameRunning (game w) \<and> \<not> isGameRunning (game (deliver ev w))")
    case True
    then show ?thesis by (simp add: quitTransitions_stopped)
  next
    case False
    with Cons.IH [of "deliver ev w"] show ?thesis by auto
  qed
qed

lemma process_gameOver: "process (gameOver m w) = Exited 0"
  by (simp add: gameOver_def Let_def)

lemma keypress_quit: "isQuit key \<Longrightarrow> keypress key w = gameOver (ascii ''Thanks for playing!'') w"
  by (auto simp: keypress_def isQuit_def Let_def)

lemma run_ended: "process w \<noteq> Alive \<Longrightarrow> run evs w = w"
  by (induction evs rule: rev_induct) (simp_all add: deliver_def)

text \<open>
  C9: the running flag, once false, is never true again, so it goes from true to false
  at most once in any sequence of events; while the process lives and the flag is true, an
  event makes it false exactly when it is a quit key (q, or c with the control modifier).
  A timer callback that finds the flag false moves nothing, renders nothing and clears the
  interval. The quit key ends the process, after which no event changes anything.
\<close>

theorem quit_is_one_way:
  "(\<not> isGameRunning (game w) \<longrightarrow> \<not> isGameRunning (game (deliver ev w))) \<and>
   (process w = Alive \<and> isGameRunning (game w) \<longrightarrow>
      (\<not> isGameRunning (game (deliver ev w))) = (\<exists>key. ev = Keypress key \<and> isQuit key)) \<and>
   quitTransitions evs w \<le> 1 \<and>
   (\<not> isGameRunning (game w) \<longrightarrow> gameLoopTick w = w\<lparr>gameLoop := False\<rparr>) \<and>
   (process w = Alive \<and> isQuit key \<longrightarrow>
      process (deliver (Keypress key) w) = Exited 0 \<and>
      \<not> isGameRunning (game (deliver (Keypress key) w)) \<and>
      run evs (deliver (Keypress key) w) = deliver (Keypress key) w)"
proof -
  have "process (deliver (Keypress key) w) = Exited 0 \<and>
      \<not> isGameRunning (game (deliver (Keypress key) w)) \<and>
      run evs (deliver (Keypress key) w) = deliver (Keypress key) w"
    if "process w = Alive" "isQuit key"
  proof -
    from that have d: "deliver (Keypress key) w = gameOver (ascii ''Thanks for playing!'') w"
      by (simp add: deliver_def keypress_quit)
    then have "process (deliver (Keypress key) w) = Exited 0" by (simp add: process_gameOver)
    then show ?thesis by (simp add: run_ended) (simp add: d game_gameOver)
  qed
  then show ?thesis
    using isGameRunning_deliver_stays [of w ev] isGameRunning_deliver_quit [of w ev]
      quitTransitions_le [of evs w]
    by (simp add: gameLoopTick_def)
qed

text \<open>Quitting the initial session, with q and with Ctrl+c.\<close>

theorem quit_is_one_way_witness:
  "process initWorld = Alive \<and> isGameRunning (game initWorld) \<and> isQuit quitKey \<and> isQuit ctrlC \<and>
   process (deliver (Keypress quitKey) initWorld) = Exited 0 \<and>
   isGameRunning (game (deliver (Keypress quitKey) initWorld)) = False \<and>
   isGameRunning (game (deliver (Keypress ctrlC) initWorld)) = False \<and>
   isGameRunning (game (deliver (Keypress leftKey) initWorld)) = True \<and>
   isGameRunning (game (deliver Timer initWorld)) = True \<and>
   run [Timer, Keypress leftKey, Timer] (deliver (Keypress quitKey) initWorld)
     = deliver (Keypress quitKey) initWorld \<and>
   gameLoopTick (deliver (Keypress quitKey) initWorld)
     = (deliver (Keypress quitKey) initWorld)\<lparr>gameLoop := False\<rparr>"
proof -
  have q: "isQuit quitKey" "isQuit ctrlC" "\<not> isQuit leftKey"
    by (simp_all add: isQuit_def quitKey_def ctrlC_def leftKey_def)
  have a: "process initWorld = Alive" "isGameRunning (game initWorld)"
    by (simp_all add: process_initWorld game_initWorld_full)
  have l: "\<not> (\<exists>key. Keypress leftKey = Keypress key \<and> isQuit key)"
    "\<not> (\<exists>key. Timer = Keypress key \<and> isQuit key)"
    using q by auto
  show ?thesis
    using quit_is_one_way [of initWorld "Keypress quitKey" "[Timer, Keypress leftKey, Timer]" quitKey]
      quit_is_one_way [of initWorld "Keypress ctrlC" "[]" ctrlC]
      quit_is_one_way [of initWorld "Keypress leftKey" "[]" leftKey]
      quit_is_one_way [of initWorld Timer "[]" leftKey]
      quit_is_one_way [of "deliver (Keypress quitKey) initWorld" Timer "[]" leftKey]
      q a l
    by auto
qed

section \<open>Bounds in every reachable state\<close>

text \<open>
  C4: in every state reached from the initial one by key and timer events, the player,
  every enemy and every bullet are on the board, and the process has not crashed (no render
  wrote outside the board). Whatever the state, after the timer callback of a running game no
  bullet has a negative y: those that reached -1 are gone before the callback renders.
\<close>

theorem reachable_onBoard:
  "onBoard (game (run evs initWorld)) \<and>
   (\<forall>e. process (run evs initWorld) \<noteq> Crashed e) \<and>
   (isGameRunning (game w) \<longrightarrow> (\<forall>b\<in>set (bullets (game (gameLoopTick w))). 0 \<le> b_y b))"
  by (simp add: sessionInv_onBoard sessionInv_reachable not_crashed_reachable
      game_gameLoopTick moveBullets_bullets)

text \<open>
  One shot and one tick from the start; and a tick that prunes the bullet at the top row.
\<close>

theorem reachable_onBoard_witness:
  "onBoard (game (run [Keypress spaceKey, Timer] initWorld)) \<and>
   process (run [Keypress spaceKey, Timer] initWorld) = Alive \<and>
   bullets (game (run [Keypress spaceKey, Timer] initWorld)) = [mkBullet 20 17 25] \<and>
   isGameRunning (game (initWorld\<lparr>game := sampleGame [] Right [mkBullet 3 0 25, mkBullet 4 1 26]\<rparr>)) \<and>
   bullets (game (gameLoopTick (initWorld\<lparr>game := sampleGame [] Right [mkBullet 3 0 25, mkBullet 4 1 26]\<rparr>)))
     = [mkBullet 4 0 26]"
proof -
  let ?w1 = "deliver (Keypress spaceKey) initWorld"
  let ?w2 = "deliver Timer ?w1"
  have r: "run [Keypress spaceKey, Timer] initWorld = ?w2" by (simp add: run_def)
  have i1: "worldInv ?w1" by (rule worldInv_deliver [OF worldInv_init])
  have g1: "game ?w1 = (game initWorld)\<lparr>bullets := [mkBullet 20 18 25]\<rparr>"
    by (simp add: game_deliver [OF worldInv_init] game_keypress game_createBullet spaceKey_def
        isQuit_def process_initWorld game_initWorld_full mkBullet_eq)
  have g2: "bullets (game ?w2) = [mkBullet 20 17 25]"
    by (simp add: game_deliver [OF i1] g1 game_initWorld_full moveBullets_bullets
        moveEnemies_frame mkBullet_eq)
  have p: "process ?w2 = Alive"
    using worldInv_deliver [OF i1, of Timer] g1
    by (simp add: worldInv_def game_deliver [OF i1] game_initWorld_full
        moveBullets_frame moveEnemies_frame)
  show ?thesis
    using reachable_onBoard [of "[Keypress spaceKey, Timer]"
        "initWorld\<lparr>game := sampleGame [] Right [mkBullet 3 0 25, mkBullet 4 1 26]\<rparr>"]
    by (simp add: r g2 p) (simp add: game_gameLoopTick sampleGame_eq moveBullets_bullets
        moveEnemies_frame mkBullet_eq)
qed

text \<open>
  C6: after any sequence of key events from the initial state the x of the player is
  between 0 and \<open>width - 1\<close>. In any state, a left key decrements it only when it is above
  0, a right key increments it only when it is below \<open>width - 1\<close>, and no other key
  changes it.
\<close>

theorem player_x_clamped:
  "0 \<le> p_x (player (game (run (map Keypress keys) initWorld))) \<and>
   p_x (player (game (run (map Keypress keys) initWorld)))
     \<le> width (game (run (map Keypress keys) initWorld)) - 1 \<and>
   p_x (player (game (keypress key w))) =
     (if k_name key = Some ''left'' \<and> 0 < p_x (player (game w)) then p_x (player (game w)) - 1
      else if k_name key = Some ''right'' \<and> p_x (player (game w)) < width (game w) - 1
      then p_x (player (game w)) + 1
      else p_x (player (game w)))"
proof -
  have "sessionInv (game (run (map Keypress keys) initWorld))" by (rule sessionInv_reachable)
  then show ?thesis
    by (auto simp: sessionInv_def game_keypress game_createBullet Let_def)
qed

text \<open>Left and right keys in the middle of the board and at its two ends.\<close>

theorem player_x_clamped_witness:
  "0 \<le> p_x (player (game (run (map Keypress [leftKey, leftKey, rightKey]) initWorld))) \<and>
   p_x (player (game (keypress leftKey initWorld))) = 19 \<and>
   p_x (player (game (keypress leftKey (playerAt 0)))) = 0 \<and>
   p_x (player (game (keypress rightKey initWorld))) = 21 \<and>
   p_x (player (game (keypress rightKey (playerAt 39)))) = 39"
  using player_x_clamped [of "[leftKey, leftKey, rightKey]" leftKey initWorld]
    player_x_clamped [of "[]" leftKey "playerAt 0"]
    player_x_clamped [of "[]" rightKey initWorld]
    player_x_clamped [of "[]" rightKey "playerAt 39"]
  by (simp add: leftKey_def rightKey_def playerAt_def game_initWorld_full)

lemma p_y_deliver: "p_y (player (game (deliver ev w))) = p_y (player (game w))"
  by (auto simp: deliver_def game_keypress game_createBullet game_gameLoopTick Let_def
      moveBullets_frame moveEnemies_frame split: event.splits)

text \<open>
  C10: the y of the player is \<open>height - 1\<close> in the initial state, no event and no render
  changes it, so it is \<open>height - 1\<close> in every reachable state; there the space key fires
  \<open>createBullet\<close>, which appends a bullet at \<open>height - 2\<close>, a row of the board.
\<close>

theorem player_y_fixed:
  "p_y (player (game initWorld)) = height (game initWorld) - 1 \<and>
   p_y (player (game (deliver ev w))) = p_y (player (game w)) \<and>
   p_y (player (game (render w))) = p_y (player (game w)) \<and>
   height (game (run evs initWorld)) = 20 \<and>
   p_y (player (game (run evs initWorld))) = height (game (run evs initWorld)) - 1 \<and>
   (k_name key = Some ''space'' \<longrightarrow> game (keypress key w) = game (createBullet w)) \<and>
   bullets (game (createBullet (run evs initWorld))) =
     bullets (game (run evs initWorld)) @
       [\<lparr>b_x = p_x (player (game (run evs initWorld))),
         b_y = height (game (run evs initWorld)) - 2,
         b_character = BulletGlyph, b_id = count_var (run evs initWorld) + 1\<rparr>] \<and>
   0 \<le> height (game (run evs initWorld)) - 2 \<and>
   height (game (run evs initWorld)) - 2 < height (game (run evs initWorld))"
proof -
  have "sessionInv (game (run evs initWorld))" by (rule sessionInv_reachable)
  then show ?thesis
    by (simp add: p_y_deliver game_createBullet sessionInv_def game_initWorld_full
        game_keypress isQuit_def Let_def)
qed

text \<open>After a left key, a tick and a shot the player is still on row 19.\<close>

theorem player_y_fixed_witness:
  "p_y (player (game (run [Keypress leftKey, Timer, Keypress spaceKey] initWorld))) = 19 \<and>
   k_name spaceKey = Some ''space'' \<and>
   map b_y (bullets (game (keypress spaceKey initWorld))) = [18] \<and>
   p_y (player (game (deliver (Keypress rightKey) initWorld))) = 19"
  using player_y_fixed [of "Keypress rightKey" initWorld
      "[Keypress leftKey, Timer, Keypress spaceKey]" spaceKey]
    player_y_fixed [of "Keypress rightKey" initWorld "[]" spaceKey]
  by (simp add: game_initWorld_full spaceKey_def)

end
